theory Spec2Isabelle
  imports Complex_Main "HOL-Library.Sublist"
begin

section \<open>Strings\<close>

text \<open>
  JavaScript strings are modelled as \<^typ>\<open>string\<close>, read as the UTF-8 encoding of the
  JavaScript string. Every string operation of the program (template concatenation, the
  test for the empty string, the replacement of an ASCII pattern, \<open>trim\<close> and
  \<open>JSON.parse\<close>) commutes with that encoding for well-formed Unicode text.
\<close>

definition code :: "char \<Rightarrow> nat" where
  "code c = of_char c"

definition NL :: string where
  "NL = [CHR 0x0A]"

text \<open>
  \<open>`${n}`\<close> for a number \<open>n\<close>: the program only renders non-negative integers (a
  headline count, an HTTP status, an attempt count), all far below \<open>10^21\<close>, where
  JavaScript prints the plain decimal numeral.
\<close>

fun number_to_string :: "nat \<Rightarrow> string" where
  "number_to_string n =
     (if n < 10 then [char_of (48 + n)]
      else number_to_string (n div 10) @ [char_of (48 + n mod 10)])"

declare number_to_string.simps [simp del]

fun strip_prefix :: "string \<Rightarrow> string \<Rightarrow> string option" where
  "strip_prefix [] s = Some s"
| "strip_prefix (p # ps) [] = None"
| "strip_prefix (p # ps) (c # cs) = (if p = c then strip_prefix ps cs else None)"

section \<open>JSON values and \<open>JSON.parse\<close>\<close>

text \<open>
  The values a JavaScript program obtains from \<open>JSON.parse\<close> and \<open>response.json()\<close>,
  together with \<open>undefined\<close>, which optional chaining produces. A number carries the exact
  rational value of its literal; an object keeps its members in source order, duplicates
  included (a lookup takes the last one, as JavaScript does).
\<close>

datatype jsvalue =
    JUndefined
  | JNull
  | JBool bool
  | JNumber rat
  | JString string
  | JArray "jsvalue list"
  | JObject "(string \<times> jsvalue) list"

datatype token =
    TLBrace | TRBrace | TLBracket | TRBracket | TComma | TColon
  | TString string | TNumber rat | TTrue | TFalse | TNull

definition is_digit :: "char \<Rightarrow> bool" where
  "is_digit c = (48 \<le> code c \<and> code c \<le> 57)"

definition decimal :: "string \<Rightarrow> nat" where
  "decimal ds = foldl (\<lambda>n c. 10 * n + (code c - 48)) 0 ds"

definition hex_val :: "char \<Rightarrow> nat option" where
  "hex_val c =
     (if 48 \<le> code c \<and> code c \<le> 57 then Some (code c - 48)
      else if 97 \<le> code c \<and> code c \<le> 102 then Some (code c - 87)
      else if 65 \<le> code c \<and> code c \<le> 70 then Some (code c - 55)
      else None)"

definition hex4 :: "string \<Rightarrow> (nat \<times> string) option" where
  "hex4 s =
     (case s of
        a # b # c # d # rest \<Rightarrow>
          (case (hex_val a, hex_val b, hex_val c, hex_val d) of
             (Some x, Some y, Some z, Some w) \<Rightarrow> Some (((x * 16 + y) * 16 + z) * 16 + w, rest)
           | _ \<Rightarrow> None)
      | _ \<Rightarrow> None)"

definition utf8 :: "nat \<Rightarrow> string" where
  "utf8 n =
     (if n < 0x80 then [char_of n]
      else if n < 0x800 then [char_of (0xC0 + n div 64), char_of (0x80 + n mod 64)]
      else if n < 0x10000 then
        [char_of (0xE0 + n div 4096), char_of (0x80 + n div 64 mod 64), char_of (0x80 + n mod 64)]
      else
        [char_of (0xF0 + n div 262144), char_of (0x80 + n div 4096 mod 64),
         char_of (0x80 + n div 64 mod 64), char_of (0x80 + n mod 64)])"

definition unicode_escape :: "string \<Rightarrow> (string \<times> string) option" where
  "unicode_escape s =
     (case hex4 s of
        None \<Rightarrow> None
      | Some (u, rest) \<Rightarrow>
          if 0xD800 \<le> u \<and> u < 0xDC00 \<and> take 2 rest = [CHR 0x5C, CHR ''u''] then
            (case hex4 (drop 2 rest) of
               Some (l, rest') \<Rightarrow>
                 if 0xDC00 \<le> l \<and> l < 0xE000
                 then Some (utf8 (0x10000 + (u - 0xD800) * 1024 + (l - 0xDC00)), rest')
                 else Some (utf8 u, rest)
             | None \<Rightarrow> Some (utf8 u, rest))
          else Some (utf8 u, rest))"

definition simple_escape :: "char \<Rightarrow> char option" where
  "simple_escape e =
     (if e = CHR 0x22 then Some (CHR 0x22)
      else if e = CHR 0x5C then Some (CHR 0x5C)
      else if e = CHR ''/'' then Some (CHR ''/'')
      else if e = CHR ''b'' then Some (CHR 0x08)
      else if e = CHR ''f'' then Some (CHR 0x0C)
      else if e = CHR ''n'' then Some (CHR 0x0A)
      else if e = CHR ''r'' then Some (CHR 0x0D)
      else if e = CHR ''t'' then Some (CHR 0x09)
      else None)"

lemma hex4_shorter: "hex4 s = Some (u, rest) \<Longrightarrow> length rest < length s"
  by (auto simp: hex4_def split: list.splits option.splits)

lemma unicode_escape_shorter: "unicode_escape s = Some (b, rest) \<Longrightarrow> length rest < length s"
  by (auto simp: unicode_escape_def split: option.splits if_splits dest!: hex4_shorter)

function scan_string :: "string \<Rightarrow> (string \<times> string) option" where
  "scan_string [] = None"
| "scan_string (c # cs) =
     (if c = CHR 0x22 then Some ([], cs)
      else if c = CHR 0x5C then
        (case cs of
           [] \<Rightarrow> None
         | e # cs' \<Rightarrow>
             if e = CHR ''u'' then
               (case unicode_escape cs' of
                  None \<Rightarrow> None
                | Some (bytes, rest) \<Rightarrow> map_option (apfst ((@) bytes)) (scan_string rest))
             else
               (case simple_escape e of
                  None \<Rightarrow> None
                | Some ch \<Rightarrow> map_option (apfst ((#) ch)) (scan_string cs')))
      else if code c < 0x20 then None
      else map_option (apfst ((#) c)) (scan_string cs))"
  by pat_completeness auto
termination
  by (relation "measure length") (auto dest: unicode_escape_shorter)


definition scan_int :: "string \<Rightarrow> (string \<times> string) option" where
  "scan_int s =
     (let ds = takeWhile is_digit s
      in if ds = [] \<or> (1 < length ds \<and> hd ds = CHR ''0'') then None
         else Some (ds, dropWhile is_digit s))"

definition scan_frac :: "string \<Rightarrow> (string \<times> string) option" where
  "scan_frac s =
     (case s of
        [] \<Rightarrow> Some ([], s)
      | c # r \<Rightarrow>
          if c = CHR ''.'' then
            (if takeWhile is_digit r = [] then None
             else Some (takeWhile is_digit r, dropWhile is_digit r))
          else Some ([], s))"

definition scan_exp_digits :: "bool \<Rightarrow> string \<Rightarrow> (int \<times> string) option" where
  "scan_exp_digits neg s =
     (if takeWhile is_digit s = [] then None
      else Some ((if neg then - int (decimal (takeWhile is_digit s))
                  else int (decimal (takeWhile is_digit s))),
                 dropWhile is_digit s))"

definition scan_exp :: "string \<Rightarrow> (int \<times> string) option" where
  "scan_exp s =
     (case s of
        [] \<Rightarrow> Some (0, s)
      | c # r \<Rightarrow>
          if c = CHR ''e'' \<or> c = CHR ''E'' then
            (case r of
               [] \<Rightarrow> None
             | d # r' \<Rightarrow>
                 if d = CHR ''-'' then scan_exp_digits True r'
                 else if d = CHR ''+'' then scan_exp_digits False r'
                 else scan_exp_digits False r)
          else Some (0, s))"

definition scan_unsigned :: "string \<Rightarrow> (rat \<times> string) option" where
  "scan_unsigned s =
     (case scan_int s of
        None \<Rightarrow> None
      | Some (ip, s2) \<Rightarrow>
          (case scan_frac s2 of
             None \<Rightarrow> None
           | Some (fp, s3) \<Rightarrow>
               (case scan_exp s3 of
                  None \<Rightarrow> None
                | Some (e, s4) \<Rightarrow>
                    Some (of_nat (decimal (ip @ fp)) * 10 powi (e - int (length fp)), s4))))"

definition scan_number :: "string \<Rightarrow> (rat \<times> string) option" where
  "scan_number s =
     (case s of
        [] \<Rightarrow> None
      | c # r \<Rightarrow>
          if c = CHR ''-'' then map_option (apfst uminus) (scan_unsigned r)
          else scan_unsigned s)"

definition json_ws :: "char \<Rightarrow> bool" where
  "json_ws c = (c = CHR '' '' \<or> c = CHR 0x09 \<or> c = CHR 0x0A \<or> c = CHR 0x0D)"

lemma scan_string_shorter: "scan_string s = Some (str, rest) \<Longrightarrow> length rest < length s"
proof (induction s arbitrary: str rule: scan_string.induct)
  case 1
  then show ?case by simp
next
  case (2 c cs)
  then show ?case
    by (fastforce split: if_splits list.splits option.splits dest: unicode_escape_shorter)
qed



lemma dropWhile_shorter: "takeWhile P xs \<noteq> [] \<Longrightarrow> length (dropWhile P xs) < length xs"
  by (cases xs) (auto simp: le_imp_less_Suc length_dropWhile_le split: if_splits)

lemma scan_int_shorter: "scan_int s = Some (ds, rest) \<Longrightarrow> length rest < length s"
  by (auto simp: scan_int_def Let_def dropWhile_shorter split: if_splits)

lemma scan_frac_shorter: "scan_frac s = Some (ds, rest) \<Longrightarrow> length rest \<le> length s"
  by (auto simp: scan_frac_def le_SucI length_dropWhile_le split: list.splits if_splits)

lemma scan_exp_digits_shorter: "scan_exp_digits b s = Some (e, rest) \<Longrightarrow> length rest \<le> length s"
  by (auto simp: scan_exp_digits_def length_dropWhile_le split: if_splits)

lemma scan_exp_shorter: "scan_exp s = Some (e, rest) \<Longrightarrow> length rest \<le> length s"
  by (auto simp: scan_exp_def split: list.splits if_splits dest!: scan_exp_digits_shorter)

lemma scan_unsigned_shorter: "scan_unsigned s = Some (q, rest) \<Longrightarrow> length rest < length s"
  by (auto simp: scan_unsigned_def split: option.splits
           dest!: scan_int_shorter scan_frac_shorter scan_exp_shorter)

lemma scan_number_shorter: "scan_number s = Some (q, rest) \<Longrightarrow> length rest < length s"
  by (auto simp: scan_number_def split: list.splits if_splits dest!: scan_unsigned_shorter)

lemma strip_prefix_Some: "strip_prefix p s = Some r \<longleftrightarrow> s = p @ r"
  by (induction p s rule: strip_prefix.induct) auto

definition scan_literal :: "string \<Rightarrow> (token \<times> string) option" where
  "scan_literal s =
     (case strip_prefix ''true'' s of
        Some r \<Rightarrow> Some (TTrue, r)
      | None \<Rightarrow>
          (case strip_prefix ''false'' s of
             Some r \<Rightarrow> Some (TFalse, r)
           | None \<Rightarrow>
               (case strip_prefix ''null'' s of
                  Some r \<Rightarrow> Some (TNull, r)
                | None \<Rightarrow> None)))"

lemma scan_literal_shorter: "scan_literal s = Some (t, rest) \<Longrightarrow> length rest < length s"
  by (auto simp: scan_literal_def strip_prefix_Some split: option.splits)

definition next_token :: "string \<Rightarrow> (token \<times> string) option" where
  "next_token s =
     (case s of
        [] \<Rightarrow> None
      | c # cs \<Rightarrow>
          if c = CHR ''{'' then Some (TLBrace, cs)
          else if c = CHR ''}'' then Some (TRBrace, cs)
          else if c = CHR ''['' then Some (TLBracket, cs)
          else if c = CHR '']'' then Some (TRBracket, cs)
          else if c = CHR '','' then Some (TComma, cs)
          else if c = CHR '':'' then Some (TColon, cs)
          else if c = CHR 0x22 then map_option (apfst TString) (scan_string cs)
          else if c = CHR ''-'' \<or> is_digit c then map_option (apfst TNumber) (scan_number s)
          else scan_literal s)"


lemma next_token_progress: "case next_token s of None \<Rightarrow> True | Some (t, rest) \<Rightarrow> length rest < length s"
proof (cases s)
  case Nil
  then show ?thesis by (simp add: next_token_def)
next
  case (Cons c cs)
  have str: "case map_option (apfst TString) (scan_string cs) of None \<Rightarrow> True | Some (t, rest) \<Rightarrow> length rest < length s"
    using Cons by (auto split: option.splits dest: scan_string_shorter)
  have num: "case map_option (apfst TNumber) (scan_number s) of None \<Rightarrow> True | Some (t, rest) \<Rightarrow> length rest < length s"
    by (auto split: option.splits dest: scan_number_shorter)
  have lit: "case scan_literal s of None \<Rightarrow> True | Some (t, rest) \<Rightarrow> length rest < length s"
    by (auto split: option.splits dest: scan_literal_shorter)
  show ?thesis
    unfolding next_token_def using str num lit Cons by simp
qed
lemma next_token_shorter: "next_token s = Some (t, rest) \<Longrightarrow> length rest < length s"
  using next_token_progress [of s] by simp

function lex :: "string \<Rightarrow> token list option" where
  "lex s =
     (case dropWhile json_ws s of
        [] \<Rightarrow> Some []
      | c # cs \<Rightarrow>
          (case next_token (c # cs) of
             None \<Rightarrow> None
           | Some (t, rest) \<Rightarrow> map_option ((#) t) (lex rest)))"
  by pat_completeness auto
termination
proof (relation "measure length")
  show "wf (measure length)" by simp
next
  fix s c cs x t rest
  assume a: "dropWhile json_ws s = c # cs" "next_token (c # cs) = Some x" "(t, rest) = x"
  then have "length rest < length (c # cs)" using next_token_shorter by metis
  moreover have "length (dropWhile json_ws s) \<le> length s" by (rule length_dropWhile_le)
  ultimately show "(rest, s) \<in> measure length" using a by simp
qed

declare lex.simps [simp del]

fun parse_value :: "token list \<Rightarrow> (jsvalue \<times> token list) option"
  and parse_elements :: "token list \<Rightarrow> (jsvalue list \<times> token list) option"
  and parse_members :: "token list \<Rightarrow> ((string \<times> jsvalue) list \<times> token list) option"
where
  "parse_value [] = None"
| "parse_value (t # ts) =
     (case t of
        TNull \<Rightarrow> Some (JNull, ts)
      | TTrue \<Rightarrow> Some (JBool True, ts)
      | TFalse \<Rightarrow> Some (JBool False, ts)
      | TNumber q \<Rightarrow> Some (JNumber q, ts)
      | TString s \<Rightarrow> Some (JString s, ts)
      | TLBracket \<Rightarrow>
          (case ts of
             TRBracket # ts' \<Rightarrow> Some (JArray [], ts')
           | _ \<Rightarrow> map_option (apfst JArray) (parse_elements ts))
      | TLBrace \<Rightarrow>
          (case ts of
             TRBrace # ts' \<Rightarrow> Some (JObject [], ts')
           | _ \<Rightarrow> map_option (apfst JObject) (parse_members ts))
      | _ \<Rightarrow> None)"
| "parse_elements ts =
     (case parse_value ts of
        None \<Rightarrow> None
      | Some (v, rest) \<Rightarrow>
          if length rest < length ts then
            (case rest of
               TRBracket # r \<Rightarrow> Some ([v], r)
             | TComma # r \<Rightarrow> map_option (apfst ((#) v)) (parse_elements r)
             | _ \<Rightarrow> None)
          else None)"
| "parse_members [] = None"
| "parse_members (t # ts) =
     (case (t, ts) of
        (TString k, TColon # ts') \<Rightarrow>
          (case parse_value ts' of
             None \<Rightarrow> None
           | Some (v, rest) \<Rightarrow>
               if length rest < length ts' then
                 (case rest of
                    TRBrace # r \<Rightarrow> Some ([(k, v)], r)
                  | TComma # r \<Rightarrow> map_option (apfst ((#) (k, v))) (parse_members r)
                  | _ \<Rightarrow> None)
               else None)
      | _ \<Rightarrow> None)"

declare parse_elements.simps [simp del]

text \<open>
  The tests \<open>length rest < length ts\<close> in \<open>parse_elements\<close> and \<open>parse_members\<close>
  make the recursion evidently terminating. They never turn a text down: a value that
  parses always leaves fewer tokens than it was given.
\<close>

lemma parse_value_array:
  assumes "parse_value (TLBracket # ts) = Some (v, r)"
  shows "(\<exists>ts'. ts = TRBracket # ts' \<and> r = ts') \<or> (\<exists>vs. parse_elements ts = Some (vs, r))"
proof (cases ts)
  case Nil
  with assms show ?thesis by (auto simp del: parse_elements.simps)
next
  case (Cons t' ts')
  with assms show ?thesis
    by (cases t') (auto simp del: parse_elements.simps)
qed

lemma parse_value_object:
  assumes "parse_value (TLBrace # ts) = Some (v, r)"
  shows "(\<exists>ts'. ts = TRBrace # ts' \<and> r = ts') \<or> (\<exists>ms. parse_members ts = Some (ms, r))"
proof (cases ts)
  case Nil
  with assms show ?thesis by (auto simp del: parse_members.simps)
next
  case (Cons t' ts')
  with assms show ?thesis
    by (cases t') (auto simp del: parse_members.simps)
qed

lemma parse_elements_cases:
  assumes "parse_elements ts = Some (vs, r)"
  shows "\<exists>v rest. parse_value ts = Some (v, rest) \<and> length rest < length ts
           \<and> (rest = TRBracket # r
                \<or> (\<exists>r' vs'. rest = TComma # r' \<and> parse_elements r' = Some (vs', r)))"
proof -
  from assms obtain v rest where pv: "parse_value ts = Some (v, rest)"
    and g: "length rest < length ts"
    by (subst (asm) parse_elements.simps) (auto split: option.splits if_splits)
  from assms have c: "(case rest of
        TRBracket # r \<Rightarrow> Some ([v], r)
      | TComma # r \<Rightarrow> map_option (apfst ((#) v)) (parse_elements r)
      | _ \<Rightarrow> None) = Some (vs, r)"
    by (subst (asm) parse_elements.simps) (simp add: pv g)
  have "rest = TRBracket # r
      \<or> (\<exists>r' vs'. rest = TComma # r' \<and> parse_elements r' = Some (vs', r))"
  proof (cases rest)
    case Nil
    with c show ?thesis by simp
  next
    case (Cons t r')
    with c show ?thesis
      by (cases t) (auto simp del: parse_elements.simps)
  qed
  with pv g show ?thesis by blast
qed

lemma parse_members_cases:
  assumes "parse_members ts = Some (ms, r)"
  shows "\<exists>k ts' v rest. ts = TString k # TColon # ts' \<and> parse_value ts' = Some (v, rest)
           \<and> length rest < length ts'
           \<and> (rest = TRBrace # r
                \<or> (\<exists>r' ms'. rest = TComma # r' \<and> parse_members r' = Some (ms', r)))"
proof -
  obtain t ts0 where ts: "ts = t # ts0"
    using assms by (cases ts) auto
  obtain k where t: "t = TString k"
    using assms ts by (cases t) auto
  obtain t1 ts' where ts0: "ts0 = t1 # ts'"
    using assms ts t by (cases ts0) auto
  have t1: "t1 = TColon"
    using assms ts t ts0 by (cases t1) auto
  have e: "parse_members ts =
      (case parse_value ts' of
         None \<Rightarrow> None
       | Some (v, rest) \<Rightarrow>
           if length rest < length ts' then
             (case rest of
                TRBrace # r \<Rightarrow> Some ([(k, v)], r)
              | TComma # r \<Rightarrow> map_option (apfst ((#) (k, v))) (parse_members r)
              | _ \<Rightarrow> None)
           else None)"
    unfolding ts t ts0 t1 by simp
  from assms obtain v rest where pv: "parse_value ts' = Some (v, rest)"
    and g: "length rest < length ts'"
    unfolding e by (auto split: option.splits if_splits)
  from assms have c: "(case rest of
        TRBrace # r \<Rightarrow> Some ([(k, v)], r)
      | TComma # r \<Rightarrow> map_option (apfst ((#) (k, v))) (parse_members r)
      | _ \<Rightarrow> None) = Some (ms, r)"
    unfolding e by (simp add: pv g)
  have "rest = TRBrace # r
      \<or> (\<exists>r' ms'. rest = TComma # r' \<and> parse_members r' = Some (ms', r))"
  proof (cases rest)
    case Nil
    with c show ?thesis by simp
  next
    case (Cons t2 r')
    with c show ?thesis
      by (cases t2) (auto simp del: parse_members.simps)
  qed
  with ts t ts0 t1 pv g show ?thesis by blast
qed

lemma parse_shorter:
  "(\<forall>v r. parse_value ts = Some (v, r) \<longrightarrow> length r < length ts)
   \<and> (\<forall>vs r. parse_elements ts = Some (vs, r) \<longrightarrow> length r < length ts)
   \<and> (\<forall>ms r. parse_members ts = Some (ms, r) \<longrightarrow> length r < length ts)"
proof (induction "length ts" arbitrary: ts rule: less_induct)
  case less
  have val: "length r < length ts" if "parse_value ts = Some (v, r)" for v r
  proof (cases ts)
    case Nil
    with that show ?thesis by simp
  next
    case (Cons t ts0)
    show ?thesis
    proof (cases t)
      case TLBracket
      from parse_value_array [OF that [unfolded Cons TLBracket]]
      show ?thesis
      proof
        assume "\<exists>ts'. ts0 = TRBracket # ts' \<and> r = ts'"
        with Cons show ?thesis by auto
      next
        assume "\<exists>vs. parse_elements ts0 = Some (vs, r)"
        moreover have "length ts0 < length ts" using Cons by simp
        ultimately have "length r < length ts0"
          using less [of ts0] by blast
        with Cons show ?thesis by simp
      qed
    next
      case TLBrace
      from parse_value_object [OF that [unfolded Cons TLBrace]]
      show ?thesis
      proof
        assume "\<exists>ts'. ts0 = TRBrace # ts' \<and> r = ts'"
        with Cons show ?thesis by auto
      next
        assume "\<exists>ms. parse_members ts0 = Some (ms, r)"
        moreover have "length ts0 < length ts" using Cons by simp
        ultimately have "length r < length ts0"
          using less [of ts0] by blast
        with Cons show ?thesis by simp
      qed
    qed (use that Cons in auto)
  qed
  have elems: "length r < length ts" if "parse_elements ts = Some (vs, r)" for vs r
  proof -
    from parse_elements_cases [OF that] obtain v rest where
      g: "length rest < length ts" and
      c: "rest = TRBracket # r
          \<or> (\<exists>r' vs'. rest = TComma # r' \<and> parse_elements r' = Some (vs', r))"
      by blast
    from c show ?thesis
    proof
      assume "rest = TRBracket # r"
      with g show ?thesis by simp
    next
      assume "\<exists>r' vs'. rest = TComma # r' \<and> parse_elements r' = Some (vs', r)"
      then obtain r' vs' where r: "rest = TComma # r'" "parse_elements r' = Some (vs', r)"
        by blast
      have "length r' < length ts" using g r by simp
      then have "length r < length r'" using less [of r'] r by blast
      with g r show ?thesis by simp
    qed
  qed
  have membs: "length r < length ts" if "parse_members ts = Some (ms, r)" for ms r
  proof -
    from parse_members_cases [OF that] obtain k ts' v rest where
      ts: "ts = TString k # TColon # ts'" and
      g: "length rest < length ts'" and
      c: "rest = TRBrace # r
          \<or> (\<exists>r' ms'. rest = TComma # r' \<and> parse_members r' = Some (ms', r))"
      by blast
    from c show ?thesis
    proof
      assume "rest = TRBrace # r"
      with g ts show ?thesis by simp
    next
      assume "\<exists>r' ms'. rest = TComma # r' \<and> parse_members r' = Some (ms', r)"
      then obtain r' ms' where r: "rest = TComma # r'" "parse_members r' = Some (ms', r)"
        by blast
      have "length r' < length ts" using g r ts by simp
      then have "length r < length r'" using less [of r'] r by blast
      with g r ts show ?thesis by simp
    qed
  qed
  from val elems membs show ?case by blast
qed

lemma parse_value_shorter: "parse_value ts = Some (v, r) \<Longrightarrow> length r < length ts"
  using parse_shorter [of ts] by blast

text \<open>
  \<open>JSON.parse\<close>: a JSON text is one value, with insignificant whitespace allowed around
  every token. The whitespace around the whole text is dropped first, the whitespace
  between tokens by the lexer.
\<close>

definition json_strip :: "string \<Rightarrow> string" where
  "json_strip s = rev (dropWhile json_ws (rev (dropWhile json_ws s)))"

definition JSON_parse :: "string \<Rightarrow> jsvalue option" where
  "JSON_parse s =
     (case lex (json_strip s) of
        None \<Rightarrow> None
      | Some ts \<Rightarrow>
          (case parse_value ts of
             Some (v, []) \<Rightarrow> Some v
           | _ \<Rightarrow> None))"

section \<open>String operations of the program\<close>

text \<open>
  \<open>jsonText.replace(/```json|```/g, '')\<close>: a left-to-right scan that removes every
  occurrence of the pattern, trying the alternative \<open>```json\<close> before \<open>```\<close>.
\<close>

function replace_fences :: "string \<Rightarrow> string" where
  "replace_fences s =
     (case strip_prefix ''```json'' s of
        Some r \<Rightarrow> replace_fences r
      | None \<Rightarrow>
          (case strip_prefix ''```'' s of
             Some r \<Rightarrow> replace_fences r
           | None \<Rightarrow>
               (case s of
                  [] \<Rightarrow> []
                | c # cs \<Rightarrow> c # replace_fences cs)))"
  by pat_completeness auto
termination
  by (relation "measure length") (auto simp: strip_prefix_Some)

declare replace_fences.simps [simp del]

text \<open>
  \<open>String.prototype.trim\<close> removes the code points of \<open>WhiteSpace\<close> and
  \<open>LineTerminator\<close> from both ends: TAB, LF, VT, FF, CR, SP, U+00A0, U+1680,
  U+2000 to U+200A, U+2028, U+2029, U+202F, U+205F, U+3000 and U+FEFF, listed here in
  UTF-8.
\<close>

definition js_whitespace :: "string list" where
  "js_whitespace =
     [[CHR 0x09], [CHR 0x0A], [CHR 0x0B], [CHR 0x0C], [CHR 0x0D], [CHR 0x20],
      [CHR 0xC2, CHR 0xA0], [CHR 0xE1, CHR 0x9A, CHR 0x80],
      [CHR 0xE2, CHR 0x80, CHR 0x80], [CHR 0xE2, CHR 0x80, CHR 0x81],
      [CHR 0xE2, CHR 0x80, CHR 0x82], [CHR 0xE2, CHR 0x80, CHR 0x83],
      [CHR 0xE2, CHR 0x80, CHR 0x84], [CHR 0xE2, CHR 0x80, CHR 0x85],
      [CHR 0xE2, CHR 0x80, CHR 0x86], [CHR 0xE2, CHR 0x80, CHR 0x87],
      [CHR 0xE2, CHR 0x80, CHR 0x88], [CHR 0xE2, CHR 0x80, CHR 0x89],
      [CHR 0xE2, CHR 0x80, CHR 0x8A], [CHR 0xE2, CHR 0x80, CHR 0xA8],
      [CHR 0xE2, CHR 0x80, CHR 0xA9], [CHR 0xE2, CHR 0x80, CHR 0xAF],
      [CHR 0xE2, CHR 0x81, CHR 0x9F], [CHR 0xE3, CHR 0x80, CHR 0x80],
      [CHR 0xEF, CHR 0xBB, CHR 0xBF]]"

fun strip_any :: "string list \<Rightarrow> string \<Rightarrow> string option" where
  "strip_any [] s = None"
| "strip_any (w # ws) s =
     (case strip_prefix w s of
        Some r \<Rightarrow> Some r
      | None \<Rightarrow> strip_any ws s)"

function trim_with :: "string list \<Rightarrow> string \<Rightarrow> string" where
  "trim_with ws s =
     (case strip_any ws s of
        Some r \<Rightarrow> if length r < length s then trim_with ws r else s
      | None \<Rightarrow> s)"
  by pat_completeness auto
termination
  by (relation "measure (\<lambda>(ws, s). length s)") auto

declare trim_with.simps [simp del]

definition trimStart :: "string \<Rightarrow> string" where
  "trimStart s = trim_with js_whitespace s"

definition trimEnd :: "string \<Rightarrow> string" where
  "trimEnd s = rev (trim_with (map rev js_whitespace) (rev s))"

definition trim :: "string \<Rightarrow> string" where
  "trim s = trimEnd (trimStart s)"

text \<open>The cleaning step: \<open>jsonText.replace(/```json|```/g, '').trim()\<close>.\<close>

definition clean :: "string \<Rightarrow> string" where
  "clean jsonText = trim (replace_fences jsonText)"

section \<open>Reading JavaScript values\<close>

text \<open>
  \<open>!v\<close> is \<open>\<not> to_boolean v\<close>. A number literal denotes the double \<open>0\<close> exactly when
  its value rounds to zero, that is when its magnitude is at most \<open>2^-1075\<close>.
\<close>

definition to_boolean :: "jsvalue \<Rightarrow> bool" where
  "to_boolean v =
     (case v of
        JUndefined \<Rightarrow> False
      | JNull \<Rightarrow> False
      | JBool b \<Rightarrow> b
      | JNumber q \<Rightarrow> \<not> (\<bar>q\<bar> \<le> 1 / 2 ^ 1075)
      | JString s \<Rightarrow> s \<noteq> []
      | JArray xs \<Rightarrow> True
      | JObject ms \<Rightarrow> True)"

definition own_property :: "(string \<times> jsvalue) list \<Rightarrow> string \<Rightarrow> jsvalue" where
  "own_property ms k = (case map_of (rev ms) k of Some v \<Rightarrow> v | None \<Rightarrow> JUndefined)"

text \<open>
  \<open>v.k\<close> for the names the program reads (\<open>candidates\<close>, \<open>content\<close>, \<open>parts\<close>,
  \<open>text\<close>, \<open>finishReason\<close>): none of them is a property of a primitive, an array or
  \<open>Object.prototype\<close>, so only an own property of an object can answer.
\<close>

definition get_named :: "string \<Rightarrow> jsvalue \<Rightarrow> jsvalue" where
  "get_named k v = (case v of JObject ms \<Rightarrow> own_property ms k | _ \<Rightarrow> JUndefined)"

text \<open>
  \<open>v[0]\<close>. On a non-empty string it is the one-unit string of its first code unit; the
  program only ever reads a named property of that, which is \<open>undefined\<close>.
\<close>

definition get_index0 :: "jsvalue \<Rightarrow> jsvalue" where
  "get_index0 v =
     (case v of
        JArray xs \<Rightarrow> (case xs of [] \<Rightarrow> JUndefined | x # _ \<Rightarrow> x)
      | JObject ms \<Rightarrow> own_property ms ''0''
      | JString s \<Rightarrow> (if s = [] then JUndefined else JString (take 1 s))
      | _ \<Rightarrow> JUndefined)"

text \<open>The optional chaining operator \<open>v?.\<close>: short-circuits on \<open>null\<close> and \<open>undefined\<close>.\<close>

definition opt_chain :: "(jsvalue \<Rightarrow> jsvalue) \<Rightarrow> jsvalue \<Rightarrow> jsvalue" where
  "opt_chain f v = (if v = JUndefined \<or> v = JNull then JUndefined else f v)"

text \<open>\<open>result.candidates?.[0]?.content?.parts?.[0]?.text\<close>, for \<open>result\<close> not \<open>null\<close>.\<close>

definition json_text :: "jsvalue \<Rightarrow> jsvalue" where
  "json_text result =
     opt_chain (get_named ''text'')
       (opt_chain get_index0
         (opt_chain (get_named ''parts'')
           (opt_chain (get_named ''content'')
             (opt_chain get_index0 (get_named ''candidates'' result)))))"

text \<open>\<open>result.candidates?.[0]?.finishReason\<close>, for \<open>result\<close> not \<open>null\<close>.\<close>

definition finish_reason :: "jsvalue \<Rightarrow> jsvalue" where
  "finish_reason result =
     opt_chain (get_named ''finishReason'') (opt_chain get_index0 (get_named ''candidates'' result))"

section \<open>The two revisions of the component\<close>

text \<open>
  The repository holds two revisions of the same component, \<open>src/App.jsx\<close> and an unnamed
  one. They differ in the wording of the instruction, in the response schema, in the note of
  the image placeholder, and in that the unnamed one clears the previous analysis when a
  submission starts. Everything else is common, and every definition below that depends on
  the revision takes it as its first argument.
\<close>

datatype revision = App_jsx | Part_000

section \<open>Configuration and constants\<close>

definition MODEL_NAME_TEXT :: string where
  "MODEL_NAME_TEXT = ''gemini-2.5-flash-preview-09-2025''"

definition MODEL_NAME_MULTIMODAL :: string where
  "MODEL_NAME_MULTIMODAL = ''gemini-2.5-flash-preview-09-2025''"

definition API_KEY :: string where
  "API_KEY = []"

definition API_URL_TEXT :: string where
  "API_URL_TEXT =
     ''https://generativelanguage.googleapis.com/v1beta/models/'' @ MODEL_NAME_TEXT @
     '':generateContent?key='' @ API_KEY"

definition API_URL_MULTIMODAL :: string where
  "API_URL_MULTIMODAL =
     ''https://generativelanguage.googleapis.com/v1beta/models/'' @ MODEL_NAME_MULTIMODAL @
     '':generateContent?key='' @ API_KEY"

definition analysisSchema_App_jsx :: jsvalue where
  \<open>analysisSchema_App_jsx =
  JObject
         [(''type'', JString ''OBJECT''),
          (''properties'', JObject
             [(''textWithErrorsHighlighted'', JObject
                 [(''type'', JString ''STRING''),
                  (''description'', JString
                      (''The original text with HTML <span> tags injected around detected '' @
                       ''errors (grammatical, spelling, punctuation), using the class'' @
                       '' 'error-highlight'. Example: The cow <span '' @
                       ''class="error-highlight">eat</span> grass.''))]),
              (''suggestedCorrections'', JObject
                 [(''type'', JString ''ARRAY''),
                  (''items'', JObject
                     [(''type'', JString ''OBJECT''),
                      (''properties'', JObject
                         [(''originalError'', JObject
                             [(''type'', JString ''STRING''),
                              (''description'', JString
                                  (''The exact phrase or word highlighted as an error in '' @
                                   ''textWithErrorsHighlighted.''))]),
                          (''correctedText'', JObject
                             [(''type'', JString ''STRING''),
                              (''description'', JString
                                  (''The grammatically correct or improved text suggestion for the '' @
                                   ''original error.''))])])]),
                  (''description'', JString ''A list of specific error-correction pairs found in the text.'')]),
              (''headlinesAndSubheadlines'', JObject
                 [(''type'', JString ''ARRAY''),
                  (''items'', JObject
                     [(''type'', JString ''OBJECT''),
                      (''properties'', JObject
                         [(''headlineHindi'', JObject
                             [(''type'', JString ''STRING''),
                              (''description'', JString ''A catchy, journalistic headline written in Hindi.'')]),
                          (''subheadlineHindi'', JObject
                             [(''type'', JString ''STRING''),
                              (''description'', JString ''A concise, supporting subheadline written in Hindi.'')])])])])]),
          (''required'', JArray [JString ''textWithErrorsHighlighted'', JString ''suggestedCorrections'', JString ''headlinesAndSubheadlines''])]\<close>

definition analysisSchema_Part_000 :: jsvalue where
  \<open>analysisSchema_Part_000 =
  JObject
         [(''type'', JString ''OBJECT''),
          (''properties'', JObject
             [(''textWithErrorsHighlighted'', JObject
                 [(''type'', JString ''STRING''),
                  (''description'', JString
                      (''The original text structure, but with errors replaced by: <span '' @
                       ''class='error-highlight'>OriginalWord</span> <span '' @
                       ''class='correction-suggestion'>[SuggestedWord]</span>''))]),
              (''headlinesAndSubheadlines'', JObject
                 [(''type'', JString ''ARRAY''),
                  (''items'', JObject
                     [(''type'', JString ''OBJECT''),
                      (''properties'', JObject
                         [(''headlineHindi'', JObject
                             [(''type'', JString ''STRING''),
                              (''description'', JString ''A catchy, journalistic headline written in Hindi.'')]),
                          (''subheadlineHindi'', JObject
                             [(''type'', JString ''STRING''),
                              (''description'', JString ''A concise, supporting subheadline written in Hindi.'')])])])])]),
          (''required'', JArray [JString ''textWithErrorsHighlighted'', JString ''headlinesAndSubheadlines''])]\<close>

definition analysisSchema :: "revision \<Rightarrow> jsvalue" where
  "analysisSchema rv =
     (case rv of App_jsx \<Rightarrow> analysisSchema_App_jsx | Part_000 \<Rightarrow> analysisSchema_Part_000)"

section \<open>Application state\<close>

text \<open>
  A selected file: its name, its MIME type, and what \<open>FileReader.readAsDataURL\<close> produces
  for it (\<open>None\<close> when the reader signals an error).
\<close>

record js_file =
  file_name :: string
  file_type :: string
  file_data_url :: "string option"

text \<open>
  The application states of the component (\<open>useState\<close>). \<open>currentAnalysis\<close> starts as
  \<open>null\<close>. The Firebase states only feed the displayed user identifier and are left out.
\<close>

record app_state =
  inputText :: string
  imageFile :: "js_file option"
  isLoading :: bool
  numHeadlines :: nat
  currentAnalysis :: jsvalue
  error :: string

definition initial_state :: app_state where
  "initial_state =
     \<lparr>inputText = [], imageFile = None, isLoading = False, numHeadlines = 10,
      currentAnalysis = JNull, error = []\<rparr>"

section \<open>The request payload\<close>

datatype part = Text string | InlineData string string

record generationConfig =
  responseMimeType :: string
  responseSchema :: jsvalue

record payload =
  contents :: "part list list"
  generationConfig :: generationConfig
  systemInstruction :: "part list"

definition pending_hindi :: string where
  "pending_hindi =
     [CHR 0xE0, CHR 0xA4, CHR 0xAA, CHR 0xE0, CHR 0xA5, CHR 0x87, CHR 0xE0, CHR 0xA4, CHR 0x82,
      CHR 0xE0, CHR 0xA4, CHR 0xA1, CHR 0xE0, CHR 0xA4, CHR 0xBF, CHR 0xE0, CHR 0xA4, CHR 0x82,
      CHR 0xE0, CHR 0xA4, CHR 0x97]"

definition lambit_hindi :: string where
  "lambit_hindi =
     [CHR 0xE0, CHR 0xA4, CHR 0xB2, CHR 0xE0, CHR 0xA4, CHR 0x82, CHR 0xE0, CHR 0xA4, CHR 0xAC,
      CHR 0xE0, CHR 0xA4, CHR 0xBF, CHR 0xE0, CHR 0xA4, CHR 0xA4]"

text \<open>The template literal \<open>prompt\<close> up to \<open>${numHeadlines}\<close>.\<close>

definition prompt_head :: "revision \<Rightarrow> string" where
  \<open>prompt_head rv =
     (case rv of
        App_jsx \<Rightarrow>
          ''You are a professional newspaper editor and language analyst. Your '' @
          ''task is to analyze the provided article text.'' @
          NL @
          ''        1. **Error Highlighting**: Identify grammatical, spelling, '' @
          ''and minor factual errors. Return the ORIGINAL text, but wrap all '' @
          ''error words or phrases in a span with the CSS class 'error-highlight' '' @
          ''(defined as text-red-600 font-bold). DO NOT correct the text here.'' @
          NL @
          ''        2. **Suggested Corrections**: For every grammatical, '' @
          ''spelling, or factual error identified in the text, provide the exact '' @
          ''original erroneous word/phrase and the single, best corrected '' @
          ''word/phrase suggestion for it.'' @
          NL @
          ''        3. **Hindi Headlines**: Provide ''
      | Part_000 \<Rightarrow>
          ''You are a professional newspaper editor and language analyst. Your '' @
          ''task is to analyze the provided article text.'' @
          NL @
          ''        1. **Inline Correction**: Identify grammatical, spelling, and '' @
          ''minor factual errors. Return the ORIGINAL text, but for every error, '' @
          ''replace the erroneous word/phrase with a combined HTML structure. '' @
          ''This structure MUST contain the original error, followed immediately '' @
          ''by the suggestion enclosed in square brackets, all wrapped in '' @
          ''distinct spans for styling. The structure should be: '' @
          NL @
          ''        `<span class="error-highlight">OriginalError</span> <span '' @
          ''class="correction-suggestion">[Correction]</span>`'' @
          NL @
          ''        Ensure that the structure is properly inserted inline. Use '' @
          ''the Hindi example: '' @
          [CHR 0x27] @ pending_hindi @ [CHR 0x27] @
          '' should become '' @
          [CHR 0x27] @ pending_hindi @
          '' <span class="error-highlight">'' @ pending_hindi @
          ''</span> <span class="correction-suggestion">['' @ lambit_hindi @
          '']</span>'.'' @
          NL @ NL @
          ''        2. **Hindi Headlines**: Provide '')\<close>

text \<open>The template literal \<open>prompt\<close> between \<open>${numHeadlines}\<close> and \<open>${textInput}\<close>.\<close>

definition prompt_tail :: "revision \<Rightarrow> string" where
  "prompt_tail rv =
     '' sets of catchy, journalistic headlines and subheadlines written '' @
     ''*exclusively* in **Hindi**.'' @
     NL @
     (case rv of
        App_jsx \<Rightarrow> ''        4. **Article Text**: ''
      | Part_000 \<Rightarrow> ''        3. **Article Text**: '')"

definition prompt :: "revision \<Rightarrow> nat \<Rightarrow> string \<Rightarrow> string" where
  "prompt rv n textInput = prompt_head rv @ number_to_string n @ prompt_tail rv @ textInput"

definition transcription_directive :: string where
  "transcription_directive =
     ''First, transcribe the text from this image accurately. Once transcribed, '' @
     ''perform the following analysis on the transcribed text: ''"

definition imagePrompt :: "string \<Rightarrow> string" where
  "imagePrompt p = transcription_directive @ p"

definition system_text :: string where
  "system_text =
     ''You are a world-class language model specializing in editorial analysis and '' @
     ''multilingual (Hindi) content creation. Your output MUST be valid JSON according '' @
     ''to the provided schema.''"

text \<open>
  The payload, from the prompt and the parts of the single content that was pushed
  (\<open>contents[0].parts\<close>).
\<close>

definition make_payload :: "revision \<Rightarrow> string \<Rightarrow> part list \<Rightarrow> payload" where
  "make_payload rv p ps =
     \<lparr>contents = (if 0 < length ps then [ps] else [[Text p]]),
      generationConfig =
        \<lparr>responseMimeType = ''application/json'', responseSchema = analysisSchema rv\<rparr>,
      systemInstruction = [Text system_text]\<rparr>"

section \<open>Transport, errors and effects\<close>

text \<open>
  What one call of \<open>fetch\<close> does: the promise rejects (a network failure, with the
  platform's message), or it resolves to a response with a status and a body text.
\<close>

datatype fetch_outcome = Rejects string | Responds nat string

text \<open>
  The errors a run can throw. \<open>Error\<close> is \<open>new Error(message)\<close> of the program itself;
  the others are raised by the platform: a rejected \<open>fetch\<close>, a \<open>SyntaxError\<close> of
  \<open>response.json()\<close> or \<open>JSON.parse\<close> on the given text, a \<open>TypeError\<close> for reading a
  property of \<open>null\<close> and for calling \<open>replace\<close> on a value that has no such method.
\<close>

datatype js_error =
    Error string
  | FetchRejected string
  | JsonSyntaxError string
  | NullPropertyError string
  | NotAFunctionError string

text \<open>
  The platform: the outcome of the \<open>fetch\<close> call of each attempt (numbered from 0) and the
  wording of the engine's own error messages, which ECMAScript leaves open.
\<close>

record platform =
  fetch_result :: "nat \<Rightarrow> fetch_outcome"
  engine_message :: "js_error \<Rightarrow> string"

definition message :: "platform \<Rightarrow> js_error \<Rightarrow> string" where
  "message P e =
     (case e of
        Error m \<Rightarrow> m
      | FetchRejected m \<Rightarrow> m
      | _ \<Rightarrow> engine_message P e)"

datatype event =
    Fetch string payload
  | ConsoleError string js_error
  | SetTimeout nat

text \<open>The result of running a handler: the new state, the effects in order, and an error
  that escaped the handler, if any.\<close>

record run =
  state :: app_state
  trace :: "event list"
  uncaught :: "js_error option"

section \<open>The analysis request: \<open>fetchGeminiAnalysis\<close>\<close>

definition response_ok :: "nat \<Rightarrow> bool" where
  "response_ok status = (200 \<le> status \<and> status \<le> 299)"

definition safety_message :: string where
  "safety_message =
     ''AI output was blocked due to safety settings. Please adjust the input text.''"

definition no_content_message :: string where
  "no_content_message =
     ''AI returned no JSON content. The prompt might be too complex or the model failed.''"

text \<open>
  The body of the \<open>try\<close> block after the call of \<open>fetch\<close>: \<open>Inl\<close> is the error thrown,
  \<open>Inr\<close> the parsed analysis.
\<close>

definition try_block :: "fetch_outcome \<Rightarrow> js_error + jsvalue" where
  "try_block r =
     (case r of
        Rejects m \<Rightarrow> Inl (FetchRejected m)
      | Responds status body \<Rightarrow>
          if \<not> response_ok status then
            Inl (Error (''HTTP error! status: '' @ number_to_string status))
          else
            (case JSON_parse body of
               None \<Rightarrow> Inl (JsonSyntaxError body)
             | Some result \<Rightarrow>
                 if result = JNull then Inl (NullPropertyError ''candidates'')
                 else if \<not> to_boolean (json_text result) then
                   (if finish_reason result = JString ''SAFETY''
                    then Inl (Error safety_message)
                    else Inl (Error no_content_message))
                 else
                   (case json_text result of
                      JString jsonText \<Rightarrow>
                        (case JSON_parse (clean jsonText) of
                           None \<Rightarrow> Inl (JsonSyntaxError (clean jsonText))
                         | Some parsedJson \<Rightarrow> Inr parsedJson)
                    | _ \<Rightarrow> Inl (NotAFunctionError ''jsonText.replace''))))"

definition maxRetries :: nat where
  "maxRetries = 3"

text \<open>The \<open>for\<close> loop over \<open>attempt\<close>, and the two statements after it.\<close>

function attempts ::
  "platform \<Rightarrow> string \<Rightarrow> payload \<Rightarrow> nat \<Rightarrow> js_error option \<Rightarrow> app_state \<Rightarrow> event list \<Rightarrow> run"
where
  "attempts P apiUrl body attempt lastError st tr =
     (if attempt < maxRetries then
        (case try_block (fetch_result P attempt) of
           Inr parsedJson \<Rightarrow>
             \<lparr>state = st\<lparr>currentAnalysis := parsedJson, isLoading := False\<rparr>,
              trace = tr @ [Fetch apiUrl body], uncaught = None\<rparr>
         | Inl e \<Rightarrow>
             attempts P apiUrl body (attempt + 1) (Some e) st
               (tr @ [Fetch apiUrl body,
                      ConsoleError (''Attempt '' @ number_to_string (attempt + 1) @ '' failed:'') e]
                   @ (if attempt < maxRetries - 1 then [SetTimeout (2 ^ attempt * 1000)] else [])))
      else
        (case lastError of
           None \<Rightarrow>
             \<lparr>state = st\<lparr>isLoading := False\<rparr>, trace = tr,
              uncaught = Some (NullPropertyError ''message'')\<rparr>
         | Some e \<Rightarrow>
             \<lparr>state = st\<lparr>isLoading := False,
                error := ''Analysis failed after '' @ number_to_string maxRetries @
                         '' attempts. Error: '' @ message P e\<rparr>,
              trace = tr, uncaught = None\<rparr>))"
  by pat_completeness auto
termination
  by (relation "measure (\<lambda>(P, apiUrl, body, attempt, lastError, st, tr). maxRetries - attempt)")
     auto

declare attempts.simps [simp del]

text \<open>The state after \<open>setIsLoading(true); setError('')\<close>; the unnamed revision also
  clears the previous analysis.\<close>

definition begin_loading :: "revision \<Rightarrow> app_state \<Rightarrow> app_state" where
  "begin_loading rv st =
     (case rv of
        App_jsx \<Rightarrow> st\<lparr>isLoading := True, error := []\<rparr>
      | Part_000 \<Rightarrow> st\<lparr>isLoading := True, error := [], currentAnalysis := JNull\<rparr>)"

text \<open>
  The construction of \<open>apiUrl\<close> and \<open>payload\<close>. With an image, \<open>imageFile.type\<close> is
  read from the state: if no file is held there, the read throws a \<open>TypeError\<close>, outside
  the \<open>try\<close> block.
\<close>

definition build_request ::
  "revision \<Rightarrow> app_state \<Rightarrow> string option \<Rightarrow> string \<Rightarrow> js_error + (string \<times> payload)"
where
  "build_request rv st base64Image textInput =
     (let p = prompt rv (numHeadlines st) textInput
      in case base64Image of
           None \<Rightarrow> Inr (API_URL_TEXT, make_payload rv p [Text p])
         | Some b \<Rightarrow>
             if b = [] then Inr (API_URL_TEXT, make_payload rv p [Text p])
             else
               (case imageFile st of
                  None \<Rightarrow> Inl (NullPropertyError ''type'')
                | Some f \<Rightarrow>
                    Inr (API_URL_MULTIMODAL,
                         make_payload rv p [Text (imagePrompt p), InlineData (file_type f) b])))"

definition fetchGeminiAnalysis ::
  "revision \<Rightarrow> platform \<Rightarrow> app_state \<Rightarrow> string option \<Rightarrow> string \<Rightarrow> run"
where
  "fetchGeminiAnalysis rv P st base64Image textInput =
     (if textInput = [] \<and> (base64Image = None \<or> base64Image = Some []) then
        \<lparr>state = st\<lparr>error := ''Please provide text or an image to analyze.''\<rparr>,
         trace = [], uncaught = None\<rparr>
      else
        (case build_request rv st base64Image textInput of
           Inl e \<Rightarrow> \<lparr>state = begin_loading rv st, trace = [], uncaught = Some e\<rparr>
         | Inr (apiUrl, body) \<Rightarrow> attempts P apiUrl body 0 None (begin_loading rv st) []))"

section \<open>User interaction handlers\<close>

text \<open>\<open>reader.result.split(',')[1]\<close>: the text between the first comma and the next one,
  \<open>undefined\<close> (\<open>None\<close>) when there is no comma.\<close>

definition split_comma_1 :: "string \<Rightarrow> string option" where
  "split_comma_1 s =
     (case dropWhile (\<lambda>c. c \<noteq> CHR '','') s of
        [] \<Rightarrow> None
      | c # r \<Rightarrow> Some (takeWhile (\<lambda>c. c \<noteq> CHR '','') r))"

text \<open>\<open>fileToBase64\<close>: \<open>None\<close> when the promise is rejected, else the value it resolves to.\<close>

definition fileToBase64 :: "js_file \<Rightarrow> string option option" where
  "fileToBase64 f = map_option split_comma_1 (file_data_url f)"

definition handleAnalyze :: "revision \<Rightarrow> platform \<Rightarrow> app_state \<Rightarrow> run" where
  "handleAnalyze rv P st =
     (if inputText st = [] \<and> imageFile st = None then
        \<lparr>state = st\<lparr>error := ''Please paste text or select an image.''\<rparr>,
         trace = [], uncaught = None\<rparr>
      else
        (case imageFile st of
           None \<Rightarrow> fetchGeminiAnalysis rv P st None (inputText st)
         | Some f \<Rightarrow>
             (case fileToBase64 f of
                None \<Rightarrow>
                  \<lparr>state = st\<lparr>error := ''Failed to convert image to base64.''\<rparr>,
                   trace = [], uncaught = None\<rparr>
              | Some base64 \<Rightarrow> fetchGeminiAnalysis rv P st base64 (inputText st))))"

definition placeholder :: "revision \<Rightarrow> string \<Rightarrow> string" where
  "placeholder rv fname =
     ''--- Image file selected: '' @ fname @
     (case rv of
        App_jsx \<Rightarrow> '' --- (Content will be transcribed by AI)''
      | Part_000 \<Rightarrow> '' --- (Content will be transcribed by AI upon analysis)'')"

definition handleFileChange :: "revision \<Rightarrow> js_file option \<Rightarrow> app_state \<Rightarrow> app_state" where
  "handleFileChange rv selected st =
     (case selected of
        Some f \<Rightarrow> st\<lparr>imageFile := Some f, inputText := placeholder rv (file_name f)\<rparr>
      | None \<Rightarrow> st\<lparr>imageFile := None, inputText := []\<rparr>)"

text \<open>The \<open>onChange\<close> handler of the text area.\<close>

definition textarea_onChange :: "string \<Rightarrow> app_state \<Rightarrow> app_state" where
  "textarea_onChange v st = st\<lparr>inputText := v, imageFile := None\<rparr>"

text \<open>The options of the headline selector and its \<open>onChange\<close> handler.\<close>

definition headline_options :: "nat list" where
  "headline_options = map (\<lambda>i. 5 + i * 4) [0..<5]"

definition select_onChange :: "nat \<Rightarrow> app_state \<Rightarrow> app_state" where
  "select_onChange n st = st\<lparr>numHeadlines := n\<rparr>"

text \<open>
  The events of the user interface and the states they lead to from the initial one. The
  selector can only deliver one of its options.
\<close>

datatype ui_event =
    TextareaChange string
  | FileChange "js_file option"
  | SelectChange nat
  | AnalyzeClick platform

definition ui_step :: "revision \<Rightarrow> app_state \<Rightarrow> ui_event \<Rightarrow> app_state" where
  "ui_step rv st ev =
     (case ev of
        TextareaChange v \<Rightarrow> textarea_onChange v st
      | FileChange f \<Rightarrow> handleFileChange rv f st
      | SelectChange n \<Rightarrow> (if n \<in> set headline_options then select_onChange n st else st)
      | AnalyzeClick P \<Rightarrow> state (handleAnalyze rv P st))"

definition ui_run :: "revision \<Rightarrow> ui_event list \<Rightarrow> app_state" where
  "ui_run rv evs = foldl (ui_step rv) initial_state evs"

section \<open>Vocabulary of the properties\<close>

text \<open>The outbound calls of a trace, and the waits between attempts.\<close>

fun fetches :: "event list \<Rightarrow> (string \<times> payload) list" where
  "fetches [] = []"
| "fetches (Fetch u p # es) = (u, p) # fetches es"
| "fetches (ConsoleError m e # es) = fetches es"
| "fetches (SetTimeout d # es) = fetches es"

fun delays :: "event list \<Rightarrow> nat list" where
  "delays [] = []"
| "delays (SetTimeout d # es) = d # delays es"
| "delays (Fetch u p # es) = delays es"
| "delays (ConsoleError m e # es) = delays es"

text \<open>The instruction text of a payload: the text of the first part of its first content.\<close>

definition instruction_text :: "payload \<Rightarrow> string option" where
  "instruction_text p =
     (case contents p of
        (Text t # ps) # cs \<Rightarrow> Some t
      | _ \<Rightarrow> None)"

text \<open>A transport failure: the call is rejected, or the response has a non-success status.\<close>

definition transport_fails :: "fetch_outcome \<Rightarrow> bool" where
  "transport_fails r =
     (case r of Rejects m \<Rightarrow> True | Responds status body \<Rightarrow> \<not> response_ok status)"

definition transport_error :: "fetch_outcome \<Rightarrow> js_error" where
  "transport_error r =
     (case r of
        Rejects m \<Rightarrow> FetchRejected m
      | Responds status body \<Rightarrow> Error (''HTTP error! status: '' @ number_to_string status))"

text \<open>
  A response that completed transport and whose decoded body carries no text: \<open>without_text\<close>
  holds the decoded body. It is safety-blocked when its finish reason is \<open>SAFETY\<close>, and
  empty otherwise.
\<close>

definition without_text :: "fetch_outcome \<Rightarrow> jsvalue option" where
  "without_text r =
     (case r of
        Rejects m \<Rightarrow> None
      | Responds status body \<Rightarrow>
          if response_ok status then
            (case JSON_parse body of
               None \<Rightarrow> None
             | Some result \<Rightarrow>
                 if result \<noteq> JNull \<and> \<not> to_boolean (json_text result) then Some result else None)
          else None)"

definition safety_blocked :: "fetch_outcome \<Rightarrow> bool" where
  "safety_blocked r =
     (case without_text r of
        None \<Rightarrow> False
      | Some result \<Rightarrow> finish_reason result = JString ''SAFETY'')"

definition empty_response :: "fetch_outcome \<Rightarrow> bool" where
  "empty_response r =
     (case without_text r of
        None \<Rightarrow> False
      | Some result \<Rightarrow> finish_reason result \<noteq> JString ''SAFETY'')"

text \<open>
  A response that completed transport and carries a text: \<open>extracted_text\<close> is that text,
  as the model wrote it.
\<close>

definition extracted_text :: "fetch_outcome \<Rightarrow> string option" where
  "extracted_text r =
     (case r of
        Rejects m \<Rightarrow> None
      | Responds status body \<Rightarrow>
          if response_ok status then
            (case JSON_parse body of
               None \<Rightarrow> None
             | Some result \<Rightarrow>
                 (case json_text result of
                    JString t \<Rightarrow> if t = [] then None else Some t
                  | _ \<Rightarrow> None))
          else None)"

text \<open>The fencing of a text in a code block, as language models do it.\<close>

definition fenced :: "string \<Rightarrow> string" where
  "fenced s = ''```json'' @ NL @ s @ NL @ ''```''"

text \<open>
  The invariant of the user interface that ties the two inputs together: whenever an image
  file is held, the text input is the placeholder written for that file.
\<close>

definition placeholder_shown :: "revision \<Rightarrow> app_state \<Rightarrow> bool" where
  "placeholder_shown rv st =
     (case imageFile st of
        None \<Rightarrow> True
      | Some f \<Rightarrow> inputText st = placeholder rv (file_name f))"

text \<open>The printable ASCII characters other than the space: every token of a JSON text
  begins and ends with one of them.\<close>

definition solid :: "char \<Rightarrow> bool" where
  "solid c = (33 \<le> code c \<and> code c \<le> 126)"

text \<open>\<open>token_of s rest\<close>: the text \<open>s\<close> is one token followed by \<open>rest\<close>.\<close>

definition token_of :: "string \<Rightarrow> string \<Rightarrow> bool" where
  "token_of s rest = (\<exists>tok. s = tok @ rest \<and> tok \<noteq> [] \<and> solid (hd tok) \<and> solid (last tok))"

section \<open>Example platforms\<close>

text \<open>A service that answers every call with status 503.\<close>

definition P_unavailable :: platform where
  "P_unavailable = \<lparr>fetch_result = (\<lambda>k. Responds 503 []), engine_message = (\<lambda>e. [])\<rparr>"

text \<open>A service whose every answer is a candidate without content that stopped normally.\<close>

definition P_empty :: platform where
  \<open>P_empty =
     \<lparr>fetch_result = (\<lambda>k. Responds 200 ''{"candidates":[{"finishReason":"STOP"}]}''),
      engine_message = (\<lambda>e. [])\<rparr>\<close>

text \<open>A service whose every answer was stopped by the safety filter.\<close>

definition P_safety :: platform where
  \<open>P_safety =
     \<lparr>fetch_result = (\<lambda>k. Responds 200 ''{"candidates":[{"finishReason":"SAFETY"}]}''),
      engine_message = (\<lambda>e. ''Unexpected token'')\<rparr>\<close>

text \<open>A service whose every answer carries a text that is not JSON.\<close>

definition P_prose :: platform where
  \<open>P_prose =
     \<lparr>fetch_result =
        (\<lambda>k. Responds 200 ''{"candidates":[{"content":{"parts":[{"text":"Sorry, no."}]}}]}''),
      engine_message = (\<lambda>e. ''Unexpected token'')\<rparr>\<close>

text \<open>A service that answers with the empty JSON object as the analysis.\<close>

definition P_bare :: platform where
  \<open>P_bare =
     \<lparr>fetch_result =
        (\<lambda>k. Responds 200 ''{"candidates":[{"content":{"parts":[{"text":"{}"}]}}]}''),
      engine_message = (\<lambda>e. ''Unexpected token'')\<rparr>\<close>

text \<open>The request of the submission used in the examples: the text
  \<open>The cow eat grass.\<close> from the initial state.\<close>

definition example_body :: payload where
  "example_body =
     make_payload App_jsx (prompt App_jsx 10 ''The cow eat grass.'')
       [Text (prompt App_jsx 10 ''The cow eat grass.'')]"

definition example_run :: "platform \<Rightarrow> run" where
  "example_run P = fetchGeminiAnalysis App_jsx P initial_state None ''The cow eat grass.''"

text \<open>A photographed page, and the request of its submission from the initial state.\<close>

definition example_photo :: js_file where
  "example_photo =
     \<lparr>file_name = ''page.png'', file_type = ''image/png'',
      file_data_url = Some ''data:image/png;base64,iVBORw0KGgo=''\<rparr>"

definition example_photo_body :: payload where
  "example_photo_body =
     make_payload App_jsx (prompt App_jsx 10 (placeholder App_jsx ''page.png''))
       [Text (imagePrompt (prompt App_jsx 10 (placeholder App_jsx ''page.png''))),
        InlineData ''image/png'' ''iVBORw0KGgo='']"

text \<open>An analysis whose text quotes a command between backticks, and one without.\<close>

definition example_backticks :: string where
  \<open>example_backticks = ''{"textWithErrorsHighlighted":"Run ```ls``` now"}''\<close>

definition example_analysis :: string where
  \<open>example_analysis =
     ''{"textWithErrorsHighlighted":"The cow eat grass.","headlinesAndSubheadlines":[]}''\<close>

section \<open>The retry loop\<close>

lemma number_to_string_small:
  "number_to_string 1 = ''1''" "number_to_string (Suc 0) = ''1''"
  "number_to_string 2 = ''2''" "number_to_string (Suc (Suc 0)) = ''2''"
  "number_to_string 3 = ''3''" "number_to_string (Suc (Suc (Suc 0))) = ''3''"
  by code_simp+

lemma attempts_exhausted:
  "attempts P u b 3 (Some e) st tr =
     \<lparr>state = st\<lparr>isLoading := False,
        error := ''Analysis failed after 3 attempts. Error: '' @ message P e\<rparr>,
      trace = tr, uncaught = None\<rparr>"
  by (simp add: attempts.simps [of _ _ _ 3] maxRetries_def number_to_string_small)

lemma attempts_success:
  "k < 3 \<Longrightarrow> try_block (fetch_result P k) = Inr v \<Longrightarrow>
   attempts P u b k le st tr =
     \<lparr>state = st\<lparr>currentAnalysis := v, isLoading := False\<rparr>,
      trace = tr @ [Fetch u b], uncaught = None\<rparr>"
  by (simp add: attempts.simps [of _ _ _ k] maxRetries_def)

lemma attempts_fail_0:
  "try_block (fetch_result P 0) = Inl e \<Longrightarrow>
   attempts P u b 0 le st tr =
     attempts P u b 1 (Some e) st
       (tr @ [Fetch u b, ConsoleError ''Attempt 1 failed:'' e, SetTimeout 1000])"
  by (simp add: attempts.simps [of _ _ _ 0] maxRetries_def number_to_string_small)

lemma attempts_fail_1:
  "try_block (fetch_result P 1) = Inl e \<Longrightarrow>
   attempts P u b 1 le st tr =
     attempts P u b 2 (Some e) st
       (tr @ [Fetch u b, ConsoleError ''Attempt 2 failed:'' e, SetTimeout 2000])"
  by (simp add: attempts.simps [of _ _ _ "Suc 0"] maxRetries_def number_to_string_small
      numeral_2_eq_2 [symmetric])

lemma attempts_fail_2:
  "try_block (fetch_result P 2) = Inl e \<Longrightarrow>
   attempts P u b 2 le st tr =
     attempts P u b 3 (Some e) st (tr @ [Fetch u b, ConsoleError ''Attempt 3 failed:'' e])"
  by (simp add: attempts.simps [of _ _ _ 2] maxRetries_def number_to_string_small)

lemma attempts_all_fail:
  assumes "try_block (fetch_result P 0) = Inl e0"
    and "try_block (fetch_result P 1) = Inl e1"
    and "try_block (fetch_result P 2) = Inl e2"
  shows "attempts P u b 0 le st tr =
     \<lparr>state = st\<lparr>isLoading := False,
        error := ''Analysis failed after 3 attempts. Error: '' @ message P e2\<rparr>,
      trace = tr @ [Fetch u b, ConsoleError ''Attempt 1 failed:'' e0, SetTimeout 1000,
                    Fetch u b, ConsoleError ''Attempt 2 failed:'' e1, SetTimeout 2000,
                    Fetch u b, ConsoleError ''Attempt 3 failed:'' e2],
      uncaught = None\<rparr>"
  unfolding attempts_fail_0 [OF assms(1)] attempts_fail_1 [OF assms(2)]
    attempts_fail_2 [OF assms(3)] attempts_exhausted
  by simp

lemma attempts_trace_prefix:
  "trace (attempts P u b k le st tr) = tr @ trace (attempts P u b k le st [])"
proof (induction "maxRetries - k" arbitrary: k le tr)
  case 0
  then have "\<not> k < maxRetries" by simp
  then show ?case
    by (simp add: attempts.simps [of _ _ _ k] split: option.splits)
next
  case (Suc n)
  then have lt: "k < maxRetries" by simp
  show ?case
  proof (cases "try_block (fetch_result P k)")
    case (Inr v)
    with lt show ?thesis by (simp add: attempts.simps [of _ _ _ k])
  next
    case (Inl e)
    define X where
      "X = [Fetch u b, ConsoleError (''Attempt '' @ number_to_string (k + 1) @ '' failed:'') e]
            @ (if k < maxRetries - 1 then [SetTimeout (2 ^ k * 1000)] else [])"
    have step: "attempts P u b k le st t = attempts P u b (k + 1) (Some e) st (t @ X)" for t
      using lt Inl by (subst attempts.simps) (simp add: X_def)
    have n: "n = maxRetries - (k + 1)" using Suc.hyps(2) by simp
    have "trace (attempts P u b k le st tr) = (tr @ X) @ trace (attempts P u b (k + 1) (Some e) st [])"
      unfolding step [of tr] by (rule Suc.hyps(1) [OF n])
    moreover have "trace (attempts P u b k le st []) = X @ trace (attempts P u b (k + 1) (Some e) st [])"
      unfolding step [of "[]"] using Suc.hyps(1) [OF n, of "Some e" X] by simp
    ultimately show ?thesis by simp
  qed
qed


lemma attempts_first_call:
  assumes "k < maxRetries"
  shows "\<exists>rest. trace (attempts P u b k le st tr) = tr @ Fetch u b # rest"
proof (cases "try_block (fetch_result P k)")
  case (Inr v)
  with assms show ?thesis by (simp add: attempts.simps [of _ _ _ k])
next
  case (Inl e)
  let ?X = "[Fetch u b, ConsoleError (''Attempt '' @ number_to_string (k + 1) @ '' failed:'') e]
            @ (if k < maxRetries - 1 then [SetTimeout (2 ^ k * 1000)] else [])"
  have "attempts P u b k le st tr = attempts P u b (k + 1) (Some e) st (tr @ ?X)"
    using assms Inl by (subst attempts.simps) simp
  then have "trace (attempts P u b k le st tr)
      = (tr @ ?X) @ trace (attempts P u b (k + 1) (Some e) st [])"
    using attempts_trace_prefix [of P u b "k + 1" "Some e" st "tr @ ?X"] by simp
  then show ?thesis by simp
qed

lemma failed_attempt_continues:
  assumes "try_block (fetch_result P k) = Inl e" and "k < maxRetries - 1"
  shows "\<exists>rest. trace (attempts P u b k le st tr) =
           tr @ [Fetch u b,
                 ConsoleError (''Attempt '' @ number_to_string (k + 1) @ '' failed:'') e,
                 SetTimeout (2 ^ k * 1000),
                 Fetch u b] @ rest"
proof -
  let ?X = "[Fetch u b,
             ConsoleError (''Attempt '' @ number_to_string (k + 1) @ '' failed:'') e,
             SetTimeout (2 ^ k * 1000)]"
  have "k < maxRetries" using assms(2) by simp
  then have "attempts P u b k le st tr = attempts P u b (k + 1) (Some e) st (tr @ ?X)"
    using assms by (subst attempts.simps) simp
  moreover have "k + 1 < maxRetries" using assms(2) by simp
  then obtain rest where
    "trace (attempts P u b (k + 1) (Some e) st (tr @ ?X)) = (tr @ ?X) @ Fetch u b # rest"
    using attempts_first_call by blast
  ultimately show ?thesis by simp
qed

lemma last_attempt_fails:
  assumes "try_block (fetch_result P k) = Inl e" and "k = maxRetries - 1"
  shows "attempts P u b k le st tr =
     \<lparr>state = st\<lparr>isLoading := False,
        error := ''Analysis failed after 3 attempts. Error: '' @ message P e\<rparr>,
      trace = tr @ [Fetch u b, ConsoleError ''Attempt 3 failed:'' e],
      uncaught = None\<rparr>"
proof -
  have k: "k = 2" using assms(2) by (simp add: maxRetries_def)
  show ?thesis
    using assms(1) unfolding k by (simp add: attempts_fail_2 attempts_exhausted)
qed

lemma fetches_append: "fetches (xs @ ys) = fetches xs @ fetches ys"
  by (induction xs rule: fetches.induct) simp_all

lemma delays_append: "delays (xs @ ys) = delays xs @ delays ys"
  by (induction xs rule: delays.induct) simp_all

lemma attempts_same_request:
  "set (fetches (trace (attempts P u b k le st []))) \<subseteq> {(u, b)}"
proof (induction "maxRetries - k" arbitrary: k le)
  case 0
  then have "\<not> k < maxRetries" by simp
  then show ?case
    by (simp add: attempts.simps [of _ _ _ k] split: option.splits)
next
  case (Suc n)
  then have lt: "k < maxRetries" by simp
  show ?case
  proof (cases "try_block (fetch_result P k)")
    case (Inr v)
    with lt show ?thesis by (simp add: attempts.simps [of _ _ _ k])
  next
    case (Inl e)
    let ?X = "[Fetch u b, ConsoleError (''Attempt '' @ number_to_string (k + 1) @ '' failed:'') e]
              @ (if k < maxRetries - 1 then [SetTimeout (2 ^ k * 1000)] else [])"
    have n: "n = maxRetries - (k + 1)" using Suc.hyps(2) by simp
    have "attempts P u b k le st [] = attempts P u b (k + 1) (Some e) st ([] @ ?X)"
      using lt Inl by (subst attempts.simps) simp
    then have "trace (attempts P u b k le st [])
        = ?X @ trace (attempts P u b (k + 1) (Some e) st [])"
      using attempts_trace_prefix [of P u b "k + 1" "Some e" st ?X] by simp
    then show ?thesis
      using Suc.hyps(1) [OF n, of "Some e"] by (auto simp: fetches_append)
  qed
qed

section \<open>Classification of an attempt\<close>

lemma try_block_transport_fails:
  "transport_fails r \<Longrightarrow> try_block r = Inl (transport_error r)"
  by (cases r) (simp_all add: transport_fails_def transport_error_def try_block_def)

lemma try_block_without_text:
  assumes "without_text r = Some result"
  shows "try_block r =
     Inl (Error (if finish_reason result = JString ''SAFETY''
                 then safety_message else no_content_message))"
proof (cases r)
  case (Rejects m)
  with assms show ?thesis by (simp add: without_text_def)
next
  case (Responds status body)
  with assms have ok: "response_ok status" and p: "JSON_parse body = Some result"
    and nn: "result \<noteq> JNull" and nt: "\<not> to_boolean (json_text result)"
    by (auto simp: without_text_def split: if_splits option.splits)
  show ?thesis
    unfolding Responds try_block_def using ok p nn nt by simp
qed

lemma try_block_safety_blocked:
  "safety_blocked r \<Longrightarrow> try_block r = Inl (Error safety_message)"
  by (auto simp: safety_blocked_def try_block_without_text split: option.splits)

lemma try_block_empty_response:
  "empty_response r \<Longrightarrow> try_block r = Inl (Error no_content_message)"
  by (auto simp: empty_response_def try_block_without_text split: option.splits)

lemma try_block_extracted_text:
  assumes "extracted_text r = Some t"
  shows "try_block r =
     (case JSON_parse (clean t) of
        None \<Rightarrow> Inl (JsonSyntaxError (clean t))
      | Some parsedJson \<Rightarrow> Inr parsedJson)"
proof (cases r)
  case (Rejects m)
  with assms show ?thesis by (simp add: extracted_text_def)
next
  case (Responds status body)
  with assms obtain result where ok: "response_ok status" and p: "JSON_parse body = Some result"
    and jt: "json_text result = JString t" and ne: "t \<noteq> []"
    by (auto simp: extracted_text_def split: if_splits option.splits jsvalue.splits)
  have nn: "result \<noteq> JNull"
    using jt by (auto simp: json_text_def get_named_def opt_chain_def)
  show ?thesis
    unfolding Responds try_block_def using ok p jt ne nn by (simp add: to_boolean_def)
qed

section \<open>Requests\<close>

lemma fetchGeminiAnalysis_no_input:
  "base64Image = None \<or> base64Image = Some [] \<Longrightarrow>
   fetchGeminiAnalysis rv P st base64Image [] =
     \<lparr>state = st\<lparr>error := ''Please provide text or an image to analyze.''\<rparr>,
      trace = [], uncaught = None\<rparr>"
  by (simp add: fetchGeminiAnalysis_def)

lemma fetchGeminiAnalysis_submitted:
  assumes "\<not> (textInput = [] \<and> (base64Image = None \<or> base64Image = Some []))"
    and "build_request rv st base64Image textInput = Inr (u, body)"
  shows "fetchGeminiAnalysis rv P st base64Image textInput =
     attempts P u body 0 None (begin_loading rv st) []"
proof -
  from assms(1)
  have c: "(textInput = [] \<and> (base64Image = None \<or> base64Image = Some [])) = False"
    by blast
  show ?thesis
    unfolding fetchGeminiAnalysis_def c using assms(2) by simp
qed

lemma build_request_instruction:
  assumes "build_request rv st base64Image textInput = Inr (u, body)"
  shows "instruction_text body = Some (prompt rv (numHeadlines st) textInput)
       \<or> instruction_text body = Some (imagePrompt (prompt rv (numHeadlines st) textInput))"
  using assms
  by (auto simp: build_request_def Let_def make_payload_def instruction_text_def
      split: option.splits if_splits)

lemma fetchGeminiAnalysis_requests:
  assumes "(u, body) \<in> set (fetches (trace (fetchGeminiAnalysis rv P st base64Image textInput)))"
  shows "build_request rv st base64Image textInput = Inr (u, body)"
proof (cases "textInput = [] \<and> (base64Image = None \<or> base64Image = Some [])")
  case True
  with assms show ?thesis by (auto simp: fetchGeminiAnalysis_def)
next
  case False
  show ?thesis
  proof (cases "build_request rv st base64Image textInput")
    case (Inl e)
    from False
    have c: "(textInput = [] \<and> (base64Image = None \<or> base64Image = Some [])) = False"
      by blast
    from assms Inl show ?thesis
      unfolding fetchGeminiAnalysis_def c by simp
  next
    case (Inr ub)
    obtain u' b' where ub: "ub = (u', b')" by (cases ub)
    have "fetchGeminiAnalysis rv P st base64Image textInput
        = attempts P u' b' 0 None (begin_loading rv st) []"
      using False Inr ub by (intro fetchGeminiAnalysis_submitted) simp_all
    with assms attempts_same_request [of P u' b' 0 None "begin_loading rv st"]
    have "(u, body) = (u', b')" by auto
    with Inr ub show ?thesis by simp
  qed
qed

section \<open>Successful attempts\<close>

lemma try_block_Inr:
  assumes "try_block r = Inr v"
  shows "\<exists>t. extracted_text r = Some t \<and> JSON_parse (clean t) = Some v"
proof (cases r)
  case (Rejects m)
  with assms show ?thesis by (simp add: try_block_def)
next
  case (Responds status body)
  have ok: "response_ok status"
  proof (rule ccontr)
    assume "\<not> response_ok status"
    with assms Responds show False by (simp add: try_block_def)
  qed
  obtain result where p: "JSON_parse body = Some result"
  proof (cases "JSON_parse body")
    case None
    with assms Responds ok show ?thesis by (simp add: try_block_def)
  next
    case (Some result)
    then show ?thesis by (rule that)
  qed
  have nn: "result \<noteq> JNull"
  proof
    assume "result = JNull"
    with assms Responds ok p show False by (simp add: try_block_def)
  qed
  have tb: "to_boolean (json_text result)"
  proof (rule ccontr)
    assume "\<not> to_boolean (json_text result)"
    with assms Responds ok p nn show False
      by (cases "finish_reason result = JString ''SAFETY''") (simp_all add: try_block_def)
  qed
  have red: "try_block r =
      (case json_text result of
         JString jsonText \<Rightarrow>
           (case JSON_parse (clean jsonText) of
              None \<Rightarrow> Inl (JsonSyntaxError (clean jsonText))
            | Some parsedJson \<Rightarrow> Inr parsedJson)
       | _ \<Rightarrow> Inl (NotAFunctionError ''jsonText.replace''))"
    unfolding Responds try_block_def using ok p nn tb by simp
  obtain t where jt: "json_text result = JString t"
    using assms unfolding red by (cases "json_text result") simp_all
  have ne: "t \<noteq> []" using tb jt by (simp add: to_boolean_def)
  have "JSON_parse (clean t) = Some v"
    using assms unfolding red jt by (cases "JSON_parse (clean t)") simp_all
  moreover have "extracted_text r = Some t"
    unfolding Responds extracted_text_def using ok p jt ne by simp
  ultimately show ?thesis by blast
qed

lemma attempts_succeeds_from:
  assumes "k < maxRetries"
    and "\<forall>j<k. \<exists>e. try_block (fetch_result P j) = Inl e"
    and "try_block (fetch_result P k) = Inr v"
    and "i \<le> k"
  shows "state (attempts P u b i le st tr) = st\<lparr>currentAnalysis := v, isLoading := False\<rparr>
       \<and> uncaught (attempts P u b i le st tr) = None"
  using assms(4)
proof (induction "k - i" arbitrary: i le tr)
  case 0
  then have "i = k" by simp
  then show ?case
    using assms(1,3) by (simp add: attempts.simps [of _ _ _ k])
next
  case (Suc n)
  then have lt: "i < k" by simp
  then obtain e where e: "try_block (fetch_result P i) = Inl e"
    using assms(2) by blast
  let ?X = "[Fetch u b, ConsoleError (''Attempt '' @ number_to_string (i + 1) @ '' failed:'') e]
            @ (if i < maxRetries - 1 then [SetTimeout (2 ^ i * 1000)] else [])"
  have "i < maxRetries" using lt assms(1) by simp
  then have step: "attempts P u b i le st tr = attempts P u b (i + 1) (Some e) st (tr @ ?X)"
    using e by (subst attempts.simps) simp
  have "n = k - (i + 1)" using Suc.hyps(2) by simp
  moreover have "i + 1 \<le> k" using lt by simp
  ultimately show ?case
    unfolding step by (rule Suc.hyps(1))
qed

lemma own_property_absent: "name \<notin> fst ` set ms \<Longrightarrow> own_property ms name = JUndefined"
proof -
  assume "name \<notin> fst ` set ms"
  then have "map_of (rev ms) name = None"
    by (simp add: map_of_eq_None_iff)
  then show ?thesis by (simp add: own_property_def)
qed

section \<open>The example submission\<close>

lemma example_request:
  "build_request App_jsx initial_state None ''The cow eat grass.'' = Inr (API_URL_TEXT, example_body)"
  by (simp add: build_request_def Let_def initial_state_def example_body_def)

lemma example_run_attempts:
  "example_run P = attempts P API_URL_TEXT example_body 0 None (begin_loading App_jsx initial_state) []"
  unfolding example_run_def
  by (rule fetchGeminiAnalysis_submitted [OF _ example_request]) simp

lemma example_run_all_fail:
  assumes "try_block (fetch_result P 0) = Inl e0"
    and "try_block (fetch_result P 1) = Inl e1"
    and "try_block (fetch_result P 2) = Inl e2"
  shows "example_run P =
     \<lparr>state = (begin_loading App_jsx initial_state)\<lparr>isLoading := False,
        error := ''Analysis failed after 3 attempts. Error: '' @ message P e2\<rparr>,
      trace = [Fetch API_URL_TEXT example_body, ConsoleError ''Attempt 1 failed:'' e0,
               SetTimeout 1000,
               Fetch API_URL_TEXT example_body, ConsoleError ''Attempt 2 failed:'' e1,
               SetTimeout 2000,
               Fetch API_URL_TEXT example_body, ConsoleError ''Attempt 3 failed:'' e2],
      uncaught = None\<rparr>"
  unfolding example_run_attempts attempts_all_fail [OF assms] by simp

lemma example_unavailable: "transport_fails (fetch_result P_unavailable k)"
  by (simp add: P_unavailable_def transport_fails_def response_ok_def)

lemma example_empty: "empty_response (fetch_result P_empty k)"
  unfolding P_empty_def by code_simp

lemma example_safety: "safety_blocked (fetch_result P_safety k)"
  unfolding P_safety_def by code_simp

lemma example_prose: "extracted_text (fetch_result P_prose k) = Some ''Sorry, no.''"
  unfolding P_prose_def by code_simp

lemma example_prose_unparsable: "JSON_parse (clean ''Sorry, no.'') = None"
  by code_simp

lemma example_bare: "try_block (fetch_result P_bare k) = Inr (JObject [])"
  unfolding P_bare_def by code_simp

lemma example_bare_text: "extracted_text (fetch_result P_bare k) = Some ''{}''"
  unfolding P_bare_def by code_simp

section \<open>Rendering of the headline count\<close>

lemma decimal_snoc: "decimal (ds @ [c]) = 10 * decimal ds + (code c - 48)"
  by (simp add: decimal_def)

lemma code_digit: "d < 10 \<Longrightarrow> code (char_of (48 + d)) = 48 + d"
  by (simp add: code_def)

lemma decimal_number_to_string: "decimal (number_to_string n) = n"
proof (induction n rule: number_to_string.induct)
  case (1 n)
  show ?case
  proof (cases "n < 10")
    case True
    then show ?thesis
      by (subst number_to_string.simps) (simp add: decimal_def code_digit)
  next
    case False
    with 1 have "decimal (number_to_string (n div 10)) = n div 10" by simp
    with False show ?thesis
      by (subst number_to_string.simps) (simp add: decimal_snoc code_digit)
  qed
qed

lemma digits_number_to_string: "list_all is_digit (number_to_string n)"
proof (induction n rule: number_to_string.induct)
  case (1 n)
  show ?case
  proof (cases "n < 10")
    case True
    then show ?thesis
      by (subst number_to_string.simps) (simp add: is_digit_def code_digit)
  next
    case False
    with 1 have "list_all is_digit (number_to_string (n div 10))" by simp
    with False show ?thesis
      by (subst number_to_string.simps) (simp add: is_digit_def code_digit)
  qed
qed

lemma prompt_head_suffix: "suffix ''Provide '' (prompt_head rv)"
proof (cases rv)
  case App_jsx
  show ?thesis unfolding App_jsx by code_simp
next
  case Part_000
  show ?thesis unfolding Part_000 by code_simp
qed

lemma prompt_tail_prefix: "prefix '' sets of catchy'' (prompt_tail rv)"
  by (cases rv) (simp_all add: prompt_tail_def)

lemma prompt_tail_article:
  "suffix ''**Article Text**: '' (prompt_tail rv)"
proof (cases rv)
  case App_jsx
  show ?thesis unfolding App_jsx by code_simp
next
  case Part_000
  show ?thesis unfolding Part_000 by code_simp
qed

lemma prompt_mentions_count:
  "sublist (''Provide '' @ number_to_string n @ '' sets of catchy'') (prompt rv n textInput)"
proof -
  obtain h where h: "prompt_head rv = h @ ''Provide ''"
    using prompt_head_suffix [of rv] by (auto simp: suffix_def)
  obtain t where t: "prompt_tail rv = '' sets of catchy'' @ t"
    using prompt_tail_prefix [of rv] by (auto simp: prefix_def)
  have "prompt rv n textInput
      = h @ (''Provide '' @ number_to_string n @ '' sets of catchy'') @ (t @ textInput)"
    unfolding prompt_def h t by simp
  then show ?thesis
    unfolding sublist_def by blast
qed

lemma sublist_imagePrompt:
  assumes "sublist xs p"
  shows "sublist xs (imagePrompt p)"
proof -
  obtain a b where "p = a @ xs @ b"
    using assms unfolding sublist_def by blast
  then have "imagePrompt p = (transcription_directive @ a) @ xs @ b"
    unfolding imagePrompt_def by simp
  then show ?thesis
    unfolding sublist_def by blast
qed

lemma sublist_middle: "sublist ys (xs @ ys @ zs)"
  unfolding sublist_def by blast

section \<open>The inputs held by the user interface\<close>

lemma attempts_keeps_inputs:
  "inputText (state (attempts P u b k le st tr)) = inputText st
   \<and> imageFile (state (attempts P u b k le st tr)) = imageFile st"
proof (induction "maxRetries - k" arbitrary: k le tr)
  case 0
  then have "\<not> k < maxRetries" by simp
  then show ?case
    by (simp add: attempts.simps [of _ _ _ k] split: option.splits)
next
  case (Suc n)
  then have lt: "k < maxRetries" by simp
  show ?case
  proof (cases "try_block (fetch_result P k)")
    case (Inr v)
    with lt show ?thesis by (simp add: attempts.simps [of _ _ _ k])
  next
    case (Inl e)
    let ?X = "[Fetch u b, ConsoleError (''Attempt '' @ number_to_string (k + 1) @ '' failed:'') e]
              @ (if k < maxRetries - 1 then [SetTimeout (2 ^ k * 1000)] else [])"
    have n: "n = maxRetries - (k + 1)" using Suc.hyps(2) by simp
    have "attempts P u b k le st tr = attempts P u b (k + 1) (Some e) st (tr @ ?X)"
      using lt Inl by (subst attempts.simps) simp
    then show ?thesis
      using Suc.hyps(1) [OF n, of "Some e" "tr @ ?X"] by simp
  qed
qed

lemma begin_loading_keeps_inputs:
  "inputText (begin_loading rv st) = inputText st
   \<and> imageFile (begin_loading rv st) = imageFile st"
  by (cases rv) (simp_all add: begin_loading_def)

lemma fetchGeminiAnalysis_keeps_inputs:
  "inputText (state (fetchGeminiAnalysis rv P st b t)) = inputText st
   \<and> imageFile (state (fetchGeminiAnalysis rv P st b t)) = imageFile st"
proof (cases "t = [] \<and> (b = None \<or> b = Some [])")
  case True
  then show ?thesis by (auto simp: fetchGeminiAnalysis_def)
next
  case False
  then have c: "(t = [] \<and> (b = None \<or> b = Some [])) = False" by blast
  show ?thesis
  proof (cases "build_request rv st b t")
    case (Inl e)
    then show ?thesis
      unfolding fetchGeminiAnalysis_def c by (simp add: begin_loading_keeps_inputs)
  next
    case (Inr ub)
    obtain u' b' where ub: "ub = (u', b')" by (cases ub)
    show ?thesis
      unfolding fetchGeminiAnalysis_def c Inr ub
      by (simp add: attempts_keeps_inputs begin_loading_keeps_inputs)
  qed
qed

lemma handleAnalyze_keeps_inputs:
  "inputText (state (handleAnalyze rv P st)) = inputText st
   \<and> imageFile (state (handleAnalyze rv P st)) = imageFile st"
  unfolding handleAnalyze_def
  by (simp add: fetchGeminiAnalysis_keeps_inputs split: option.splits)

lemma ui_step_placeholder_shown:
  "placeholder_shown rv st \<Longrightarrow> placeholder_shown rv (ui_step rv st ev)"
proof (cases ev)
  case (TextareaChange v)
  then show ?thesis
    by (simp add: ui_step_def placeholder_shown_def textarea_onChange_def)
next
  case (FileChange sel)
  then show ?thesis
    by (cases sel) (simp_all add: ui_step_def placeholder_shown_def handleFileChange_def)
next
  case (SelectChange n)
  assume "placeholder_shown rv st"
  with SelectChange show ?thesis
    by (simp add: ui_step_def placeholder_shown_def select_onChange_def split: option.splits)
next
  case (AnalyzeClick P)
  assume "placeholder_shown rv st"
  with AnalyzeClick show ?thesis
    by (simp add: ui_step_def placeholder_shown_def handleAnalyze_keeps_inputs
        split: option.splits)
qed

lemma ui_run_placeholder_shown: "placeholder_shown rv (ui_run rv evs)"
proof (induction evs rule: rev_induct)
  case Nil
  show ?case by (simp add: ui_run_def placeholder_shown_def initial_state_def)
next
  case (snoc ev evs)
  then show ?case
    by (simp add: ui_run_def ui_step_placeholder_shown)
qed

lemma handleAnalyze_requests:
  assumes "(u, body) \<in> set (fetches (trace (handleAnalyze rv P st)))"
  shows "\<exists>b. build_request rv st b (inputText st) = Inr (u, body)"
proof (cases "inputText st = [] \<and> imageFile st = None")
  case True
  with assms show ?thesis by (simp add: handleAnalyze_def)
next
  case False
  then have c: "(inputText st = [] \<and> imageFile st = None) = False" by blast
  show ?thesis
  proof (cases "imageFile st")
    case None
    with assms have "(u, body) \<in> set (fetches (trace (fetchGeminiAnalysis rv P st None (inputText st))))"
      unfolding handleAnalyze_def c by simp
    then show ?thesis using fetchGeminiAnalysis_requests by blast
  next
    case (Some f)
    show ?thesis
    proof (cases "fileToBase64 f")
      case None
      with assms Some show ?thesis
        unfolding handleAnalyze_def c by simp
    next
      case (Some b)
      with assms \<open>imageFile st = Some f\<close>
      have "(u, body) \<in> set (fetches (trace (fetchGeminiAnalysis rv P st b (inputText st))))"
        unfolding handleAnalyze_def c by simp
      then show ?thesis using fetchGeminiAnalysis_requests by blast
    qed
  qed
qed

lemma prompt_article_text:
  "\<exists>pre. prompt rv n textInput = pre @ ''**Article Text**: '' @ textInput"
proof -
  obtain t where t: "prompt_tail rv = t @ ''**Article Text**: ''"
    using prompt_tail_article [of rv] by (auto simp: suffix_def)
  have "prompt rv n textInput
      = (prompt_head rv @ number_to_string n @ t) @ ''**Article Text**: '' @ textInput"
    unfolding prompt_def t by simp
  then show ?thesis by blast
qed

lemma imagePrompt_article_text:
  "\<exists>pre. imagePrompt (prompt rv n textInput) = pre @ ''**Article Text**: '' @ textInput"
proof -
  obtain pre where "prompt rv n textInput = pre @ ''**Article Text**: '' @ textInput"
    using prompt_article_text by blast
  then have "imagePrompt (prompt rv n textInput)
      = (transcription_directive @ pre) @ ''**Article Text**: '' @ textInput"
    unfolding imagePrompt_def by simp
  then show ?thesis by blast
qed

lemma placeholder_form:
  "prefix (''--- Image file selected: '' @ fname @ '' --- (Content will be transcribed by AI'')
     (placeholder rv fname)
   \<and> placeholder rv fname \<noteq> []"
  by (cases rv) (simp_all add: placeholder_def)

section \<open>Cleaning a fenced text\<close>

lemma strip_prefix_append_Some:
  "strip_prefix p s = Some r \<Longrightarrow> strip_prefix p (s @ x) = Some (r @ x)"
  by (simp add: strip_prefix_Some)

lemma strip_prefix_append_None:
  "strip_prefix p s = None \<Longrightarrow> c \<notin> set p \<Longrightarrow> strip_prefix p (s @ c # t) = None"
  by (induction p s rule: strip_prefix.induct) auto

lemma replace_fences_Nil: "replace_fences [] = []"
  by (subst replace_fences.simps) simp

lemma replace_fences_NL: "replace_fences (NL @ t) = NL @ replace_fences t"
  by (subst replace_fences.simps) (simp add: NL_def)

lemma replace_fences_append_NL:
  "replace_fences (s @ NL @ t) = replace_fences s @ NL @ replace_fences t"
proof (induction s rule: replace_fences.induct)
  case (1 s)
  have nl: "NL @ t = CHR 0x0A # t" by (simp add: NL_def)
  show ?case
  proof (cases "strip_prefix ''```json'' s")
    case (Some r)
    then have "strip_prefix ''```json'' (s @ NL @ t) = Some (r @ NL @ t)"
      by (rule strip_prefix_append_Some)
    then have "replace_fences (s @ NL @ t) = replace_fences (r @ NL @ t)"
      by (subst replace_fences.simps) simp
    moreover have "replace_fences s = replace_fences r"
      using Some by (subst replace_fences.simps) simp
    ultimately show ?thesis using "1.IH"(3) [OF Some] by simp
  next
    case None
    have n1: "strip_prefix ''```json'' (s @ NL @ t) = None"
      unfolding nl using None by (rule strip_prefix_append_None) simp
    show ?thesis
    proof (cases "strip_prefix ''```'' s")
      case (Some r)
      then have "strip_prefix ''```'' (s @ NL @ t) = Some (r @ NL @ t)"
        by (rule strip_prefix_append_Some)
      then have "replace_fences (s @ NL @ t) = replace_fences (r @ NL @ t)"
        using n1 by (subst replace_fences.simps) simp
      moreover have "replace_fences s = replace_fences r"
        using None Some by (subst replace_fences.simps) simp
      ultimately show ?thesis using "1.IH"(2) [OF None Some] by simp
    next
      case None2: None
      have n2: "strip_prefix ''```'' (s @ NL @ t) = None"
        unfolding nl using None2 by (rule strip_prefix_append_None) simp
      show ?thesis
      proof (cases s)
        case Nil
        then show ?thesis by (simp add: replace_fences_Nil replace_fences_NL)
      next
        case (Cons c cs)
        have "replace_fences (s @ NL @ t) = c # replace_fences (cs @ NL @ t)"
          using n1 n2 Cons by (subst replace_fences.simps) simp
        moreover have "replace_fences s = c # replace_fences cs"
          using None None2 Cons by (subst replace_fences.simps) simp
        ultimately show ?thesis using "1.IH"(1) [OF None None2 Cons] by simp
      qed
    qed
  qed
qed

lemma replace_fences_fence: "replace_fences ''```'' = []"
  by code_simp

lemma replace_fences_fenced: "replace_fences (fenced s) = NL @ replace_fences s @ NL"
proof -
  have "strip_prefix ''```json'' (fenced s) = Some (NL @ s @ NL @ ''```'')"
    by (simp add: fenced_def)
  then have "replace_fences (fenced s) = replace_fences (NL @ s @ NL @ ''```'')"
    by (subst replace_fences.simps) simp
  also have "\<dots> = NL @ replace_fences (s @ NL @ ''```'')"
    by (rule replace_fences_NL)
  also have "replace_fences (s @ NL @ ''```'') = replace_fences s @ NL @ replace_fences ''```''"
    by (rule replace_fences_append_NL)
  finally show ?thesis by (simp add: replace_fences_fence)
qed

lemma replace_fences_no_fence: "\<not> sublist ''```'' s \<Longrightarrow> replace_fences s = s"
proof (induction s rule: replace_fences.induct)
  case (1 s)
  have a: "strip_prefix ''```json'' s = None"
  proof (cases "strip_prefix ''```json'' s")
    case (Some r)
    then have "s = ''```'' @ (''json'' @ r)" by (simp add: strip_prefix_Some)
    then have "sublist ''```'' s" by (metis sublist_append_rightI)
    with "1.prems" show ?thesis by simp
  qed simp
  have b: "strip_prefix ''```'' s = None"
  proof (cases "strip_prefix ''```'' s")
    case (Some r)
    then have "s = ''```'' @ r" by (simp add: strip_prefix_Some)
    then have "sublist ''```'' s" by (metis sublist_append_rightI)
    with "1.prems" show ?thesis by simp
  qed simp
  show ?case
  proof (cases s)
    case Nil
    then show ?thesis by (simp add: replace_fences_Nil)
  next
    case (Cons c cs)
    have "\<not> sublist ''```'' cs"
      using "1.prems" Cons by (simp add: sublist_Cons_right)
    then have "replace_fences cs = cs" by (rule "1.IH"(1) [OF a b Cons])
    moreover have "replace_fences s = c # replace_fences cs"
      using a b Cons by (subst replace_fences.simps) simp
    ultimately show ?thesis using Cons by simp
  qed
qed

section \<open>Trimming\<close>

lemma strip_any_None:
  "(\<And>w. w \<in> set ws \<Longrightarrow> w \<noteq> [] \<and> hd w \<noteq> h) \<Longrightarrow> strip_any ws (h # r) = None"
proof (induction ws)
  case Nil
  show ?case by simp
next
  case (Cons w ws)
  have "w \<noteq> []" and "hd w \<noteq> h" using Cons.prems [of w] by simp_all
  then have "strip_prefix w (h # r) = None" by (cases w) simp_all
  moreover have "strip_any ws (h # r) = None"
    by (rule Cons.IH) (simp add: Cons.prems)
  ultimately show ?case by simp
qed

lemma solid_not_whitespace:
  "solid h \<Longrightarrow> w \<in> set js_whitespace \<Longrightarrow> w \<noteq> [] \<and> hd w \<noteq> h"
  by (auto simp: js_whitespace_def solid_def code_def)

lemma solid_not_whitespace_rev:
  "solid h \<Longrightarrow> w \<in> set (map rev js_whitespace) \<Longrightarrow> w \<noteq> [] \<and> hd w \<noteq> h"
  by (auto simp: js_whitespace_def solid_def code_def)

lemma strip_any_json_ws: "json_ws c \<Longrightarrow> strip_any js_whitespace (c # r) = Some r"
  unfolding json_ws_def by (elim disjE) (simp_all add: js_whitespace_def)

lemma strip_any_json_ws_rev: "json_ws c \<Longrightarrow> strip_any (map rev js_whitespace) (c # r) = Some r"
  unfolding json_ws_def by (elim disjE) (simp_all add: js_whitespace_def)

lemma trim_with_skip:
  assumes "\<And>c r. c \<in> set a \<Longrightarrow> strip_any ws (c # r) = Some r"
  shows "trim_with ws (a @ x) = trim_with ws x"
  using assms
proof (induction a)
  case Nil
  show ?case by simp
next
  case (Cons c a)
  have "strip_any ws (c # a @ x) = Some (a @ x)" by (simp add: Cons.prems)
  then have "trim_with ws ((c # a) @ x) = trim_with ws (a @ x)"
    by (subst trim_with.simps) simp
  then show ?case using Cons by simp
qed

lemma trim_with_stop: "strip_any ws x = None \<Longrightarrow> trim_with ws x = x"
  by (subst trim_with.simps) simp

lemma trimStart_shape:
  assumes "\<forall>c\<in>set a. json_ws c" and "x \<noteq> []" and "solid (hd x)"
  shows "trimStart (a @ x) = x"
proof -
  obtain h r where x: "x = h # r" using assms(2) by (cases x) auto
  have "strip_any js_whitespace x = None"
    unfolding x using assms(3) x by (intro strip_any_None solid_not_whitespace) simp_all
  then have "trim_with js_whitespace x = x" by (rule trim_with_stop)
  moreover have "trim_with js_whitespace (a @ x) = trim_with js_whitespace x"
    using assms(1) by (intro trim_with_skip strip_any_json_ws) simp
  ultimately show ?thesis by (simp add: trimStart_def)
qed

lemma trimEnd_shape:
  assumes "\<forall>c\<in>set b. json_ws c" and "x \<noteq> []" and "solid (last x)"
  shows "trimEnd (x @ b) = x"
proof -
  have rx: "rev x = last x # rev (butlast x)"
    using assms(2) by (metis append_butlast_last_id rev.simps(2) rev_append rev_rev_ident rev_singleton_conv append_Cons append_Nil)
  have "strip_any (map rev js_whitespace) (rev x) = None"
    unfolding rx using assms(3) by (intro strip_any_None solid_not_whitespace_rev) simp_all
  then have "trim_with (map rev js_whitespace) (rev x) = rev x" by (rule trim_with_stop)
  moreover have "trim_with (map rev js_whitespace) (rev b @ rev x)
      = trim_with (map rev js_whitespace) (rev x)"
    using assms(1) by (intro trim_with_skip strip_any_json_ws_rev) simp
  ultimately show ?thesis by (simp add: trimEnd_def)
qed

lemma trim_shape:
  assumes "\<forall>c\<in>set a. json_ws c" and "\<forall>c\<in>set b. json_ws c"
    and "x \<noteq> []" and "solid (hd x)" and "solid (last x)"
  shows "trim (a @ x @ b) = x"
proof -
  have "x @ b \<noteq> []" and "solid (hd (x @ b))" using assms(3,4) by simp_all
  then have "trimStart (a @ x @ b) = x @ b"
    using assms(1) by (intro trimStart_shape)
  then show ?thesis
    using trimEnd_shape [OF assms(2,3,5)] by (simp add: trim_def)
qed

section \<open>The ends of a JSON text\<close>

lemma hex4_rest: "hex4 s = Some (u, rest) \<Longrightarrow> rest = drop 4 s"
  by (auto simp: hex4_def split: list.splits option.splits)

lemma unicode_escape_suffix: "unicode_escape s = Some (b, rest) \<Longrightarrow> suffix rest s"
proof -
  assume a: "unicode_escape s = Some (b, rest)"
  then obtain u r where h: "hex4 s = Some (u, r)"
    by (auto simp: unicode_escape_def split: option.splits)
  have r: "r = drop 4 s" using h by (rule hex4_rest)
  have "rest = r \<or> (\<exists>l. hex4 (drop 2 r) = Some (l, rest))"
    using a h by (auto simp: unicode_escape_def split: option.splits if_splits)
  then have "rest = drop 4 s \<or> rest = drop 4 (drop 2 (drop 4 s))"
    using r hex4_rest by blast
  then show ?thesis
    by (auto simp: suffix_drop)
qed

lemma scan_string_suffix:
  "scan_string cs = Some (str, rest) \<Longrightarrow> suffix (CHR 0x22 # rest) cs"
proof (induction cs arbitrary: str rule: scan_string.induct)
  case 1
  then show ?case by simp
next
  case (2 c cs)
  show ?case
  proof (cases "c = CHR 0x22")
    case True
    with "2.prems" show ?thesis by simp
  next
    case nq: False
    show ?thesis
    proof (cases "c = CHR 0x5C")
      case True
      with nq "2.prems" obtain e cs' where cs: "cs = e # cs'"
        by (cases cs) auto
      show ?thesis
      proof (cases "e = CHR ''u''")
        case eu: True
        with nq True cs "2.prems" obtain bytes r str' where
          ue: "unicode_escape cs' = Some (bytes, r)" and sr: "scan_string r = Some (str', rest)"
          by (auto split: option.splits)
        have "suffix (CHR 0x22 # rest) r"
          using "2.IH"(1) [OF nq True cs eu ue refl sr] .
        moreover have "suffix r cs'" using ue by (rule unicode_escape_suffix)
        ultimately have "suffix (CHR 0x22 # rest) cs'" by (rule suffix_order.trans)
        then show ?thesis unfolding cs by (intro suffix_ConsI)
      next
        case ne: False
        with nq True cs "2.prems" obtain ch str' where
          se: "simple_escape e = Some ch" and sr: "scan_string cs' = Some (str', rest)"
          by (auto split: option.splits)
        have "suffix (CHR 0x22 # rest) cs'"
          using "2.IH"(2) [OF nq True cs ne se sr] .
        then show ?thesis unfolding cs by (intro suffix_ConsI)
      qed
    next
      case nb: False
      with nq "2.prems" have ctl: "\<not> code c < 0x20" by (auto split: if_splits)
      with nq nb "2.prems" obtain str' where sr: "scan_string cs = Some (str', rest)"
        by auto
      have "suffix (CHR 0x22 # rest) cs"
        using "2.IH"(3) [OF nq nb ctl sr] .
      then show ?thesis by (intro suffix_ConsI)
    qed
  qed
qed

lemma is_digit_solid: "is_digit c \<Longrightarrow> solid c"
  by (simp add: is_digit_def solid_def)

lemma last_takeWhile: "takeWhile P xs \<noteq> [] \<Longrightarrow> P (last (takeWhile P xs))"
  using last_in_set set_takeWhileD by metis

lemma scan_int_shape:
  "scan_int s = Some (ds, r) \<Longrightarrow> s = ds @ r \<and> ds \<noteq> [] \<and> is_digit (last ds)"
  by (auto simp: scan_int_def Let_def last_takeWhile split: if_splits)

lemma scan_frac_shape:
  "scan_frac s = Some (fp, r) \<Longrightarrow> \<exists>t. s = t @ r \<and> (t = [] \<or> is_digit (last t))"
proof (cases s)
  case Nil
  assume "scan_frac s = Some (fp, r)"
  with Nil show ?thesis by (simp add: scan_frac_def)
next
  case (Cons c cs)
  assume a: "scan_frac s = Some (fp, r)"
  show ?thesis
  proof (cases "c = CHR ''.''")
    case True
    with a Cons have ne: "takeWhile is_digit cs \<noteq> []" and r: "r = dropWhile is_digit cs"
      by (auto simp: scan_frac_def split: if_splits)
    have "s = (c # takeWhile is_digit cs) @ r" using Cons r by simp
    moreover have "is_digit (last (c # takeWhile is_digit cs))"
      using ne by (simp add: last_takeWhile)
    ultimately show ?thesis by blast
  next
    case False
    with a Cons have "r = s" by (simp add: scan_frac_def)
    then show ?thesis by simp
  qed
qed

lemma scan_exp_digits_shape:
  "scan_exp_digits b s = Some (e, r) \<Longrightarrow> \<exists>t. s = t @ r \<and> t \<noteq> [] \<and> is_digit (last t)"
proof -
  assume "scan_exp_digits b s = Some (e, r)"
  then have ne: "takeWhile is_digit s \<noteq> []" and r: "r = dropWhile is_digit s"
    by (auto simp: scan_exp_digits_def split: if_splits)
  have "s = takeWhile is_digit s @ r" using r by simp
  with ne last_takeWhile [OF ne] show ?thesis by blast
qed

lemma scan_exp_shape:
  "scan_exp s = Some (e, r) \<Longrightarrow> \<exists>t. s = t @ r \<and> (t = [] \<or> is_digit (last t))"
proof (cases s)
  case Nil
  assume "scan_exp s = Some (e, r)"
  with Nil show ?thesis by (simp add: scan_exp_def)
next
  case (Cons c cs)
  assume a: "scan_exp s = Some (e, r)"
  show ?thesis
  proof (cases "c = CHR ''e'' \<or> c = CHR ''E''")
    case False
    with a Cons have "r = s" by (simp add: scan_exp_def)
    then show ?thesis by simp
  next
    case True
    with a Cons obtain d cs' where cs: "cs = d # cs'"
      by (cases cs) (auto simp: scan_exp_def)
    have "\<exists>b x. (x = cs \<or> x = cs') \<and> scan_exp_digits b x = Some (e, r)"
      using a Cons True cs by (auto simp: scan_exp_def split: if_splits)
    then obtain b x where x: "x = cs \<or> x = cs'" and sd: "scan_exp_digits b x = Some (e, r)"
      by blast
    obtain t where t: "x = t @ r" "t \<noteq> []" "is_digit (last t)"
      using scan_exp_digits_shape [OF sd] by blast
    from x show ?thesis
    proof
      assume "x = cs"
      then have "s = (c # t) @ r" using Cons t by simp
      moreover have "is_digit (last (c # t))" using t by simp
      ultimately show ?thesis by blast
    next
      assume "x = cs'"
      then have "s = (c # d # t) @ r" using Cons cs t by simp
      moreover have "is_digit (last (c # d # t))" using t by simp
      ultimately show ?thesis by blast
    qed
  qed
qed

lemma scan_unsigned_shape:
  assumes "scan_unsigned s = Some (q, r)"
  shows "\<exists>t. s = t @ r \<and> t \<noteq> [] \<and> is_digit (last t)"
proof -
  from assms obtain ip s2 fp s3 e where
    i: "scan_int s = Some (ip, s2)" and f: "scan_frac s2 = Some (fp, s3)"
    and x: "scan_exp s3 = Some (e, r)"
    by (auto simp: scan_unsigned_def split: option.splits)
  from scan_int_shape [OF i] have 1: "s = ip @ s2" "ip \<noteq> []" "is_digit (last ip)" by simp_all
  from scan_frac_shape [OF f] obtain t2 where 2: "s2 = t2 @ s3" "t2 = [] \<or> is_digit (last t2)"
    by blast
  from scan_exp_shape [OF x] obtain t3 where 3: "s3 = t3 @ r" "t3 = [] \<or> is_digit (last t3)"
    by blast
  have "s = (ip @ t2 @ t3) @ r" using 1 2 3 by simp
  moreover have "ip @ t2 @ t3 \<noteq> []" using 1 by simp
  moreover have "is_digit (last (ip @ t2 @ t3))"
    using 1 2 3 by (cases "t3 = []"; cases "t2 = []") simp_all
  ultimately show ?thesis by blast
qed

lemma scan_number_shape:
  assumes "scan_number s = Some (q, r)"
  shows "\<exists>t. s = t @ r \<and> t \<noteq> [] \<and> is_digit (last t)"
proof (cases s)
  case Nil
  with assms show ?thesis by (simp add: scan_number_def)
next
  case (Cons c cs)
  show ?thesis
  proof (cases "c = CHR ''-''")
    case True
    with assms Cons obtain q' where "scan_unsigned cs = Some (q', r)"
      by (auto simp: scan_number_def)
    then obtain t where "cs = t @ r" "t \<noteq> []" "is_digit (last t)"
      using scan_unsigned_shape by blast
    then have "s = (c # t) @ r \<and> c # t \<noteq> [] \<and> is_digit (last (c # t))"
      using Cons by simp
    then show ?thesis by blast
  next
    case False
    with assms Cons have "scan_unsigned s = Some (q, r)"
      by (simp add: scan_number_def)
    then show ?thesis by (rule scan_unsigned_shape)
  qed
qed

lemma token_of_punct: "solid c \<Longrightarrow> token_of (c # cs) cs"
  unfolding token_of_def by (intro exI [of _ "[c]"]) simp

lemma token_of_string:
  assumes "scan_string cs = Some (str, rest)"
  shows "token_of (CHR 0x22 # cs) rest"
proof -
  obtain body where "cs = body @ CHR 0x22 # rest"
    using scan_string_suffix [OF assms] by (auto simp: suffix_def)
  then have "CHR 0x22 # cs = (CHR 0x22 # body @ [CHR 0x22]) @ rest" by simp
  moreover have "solid (CHR 0x22)" by (simp add: solid_def code_def)
  ultimately show ?thesis
    unfolding token_of_def by (intro exI [of _ "CHR 0x22 # body @ [CHR 0x22]"]) simp
qed

lemma token_of_number:
  assumes "scan_number (c # cs) = Some (q, rest)" and "solid c"
  shows "token_of (c # cs) rest"
proof -
  obtain t where t: "c # cs = t @ rest" "t \<noteq> []" "is_digit (last t)"
    using scan_number_shape [OF assms(1)] by blast
  then have "hd t = c" by (cases t) auto
  with t assms(2) show ?thesis
    unfolding token_of_def by (intro exI [of _ t]) (simp add: is_digit_solid)
qed

lemma token_of_literal:
  assumes "scan_literal s = Some (t, rest)"
  shows "token_of s rest"
proof -
  have "s = ''true'' @ rest \<or> s = ''false'' @ rest \<or> s = ''null'' @ rest"
    using assms by (auto simp: scan_literal_def strip_prefix_Some split: option.splits)
  then show ?thesis
  proof (elim disjE)
    assume "s = ''true'' @ rest"
    then show ?thesis
      unfolding token_of_def by (intro exI [of _ "''true''"]) (simp add: solid_def code_def)
  next
    assume "s = ''false'' @ rest"
    then show ?thesis
      unfolding token_of_def by (intro exI [of _ "''false''"]) (simp add: solid_def code_def)
  next
    assume "s = ''null'' @ rest"
    then show ?thesis
      unfolding token_of_def by (intro exI [of _ "''null''"]) (simp add: solid_def code_def)
  qed
qed

lemma next_token_shape':
  "case next_token s of None \<Rightarrow> True | Some (t, rest) \<Rightarrow> token_of s rest"
proof (cases s)
  case Nil
  then show ?thesis by (simp add: next_token_def)
next
  case (Cons c cs)
  have str: "c = CHR 0x22 \<Longrightarrow>
             (case map_option (apfst TString) (scan_string cs) of
                None \<Rightarrow> True | Some (t, rest) \<Rightarrow> token_of (c # cs) rest)"
    by (auto split: option.splits dest: token_of_string)
  have num: "c = CHR ''-'' \<or> is_digit c \<Longrightarrow>
             (case map_option (apfst TNumber) (scan_number (c # cs)) of
                None \<Rightarrow> True | Some (t, rest) \<Rightarrow> token_of (c # cs) rest)"
  proof -
    assume "c = CHR ''-'' \<or> is_digit c"
    then have "solid c" by (auto simp: is_digit_solid) (simp add: solid_def code_def)
    then show ?thesis
      by (auto split: option.splits dest: token_of_number)
  qed
  have lit: "case scan_literal (c # cs) of
               None \<Rightarrow> True | Some (t, rest) \<Rightarrow> token_of (c # cs) rest"
    by (auto split: option.splits dest: token_of_literal)
  have p: "solid (CHR ''{'')" "solid (CHR ''}'')" "solid (CHR ''['')" "solid (CHR '']'')"
    "solid (CHR '','')" "solid (CHR '':'')"
    by (simp_all add: solid_def code_def)
  show ?thesis
    unfolding next_token_def Cons using str num lit p
    by (simp add: token_of_punct)
qed

lemma next_token_shape: "next_token s = Some (t, rest) \<Longrightarrow> token_of s rest"
  using next_token_shape' [of s] by simp

lemma last_dropWhile:
  "dropWhile P s \<noteq> [] \<Longrightarrow> last (dropWhile P s) = last s"
  by (metis last_appendR takeWhile_dropWhile_id)

lemma dropWhile_not_Nil: "s \<noteq> [] \<Longrightarrow> \<not> P (last s) \<Longrightarrow> dropWhile P s \<noteq> []"
  by (metis dropWhile_eq_Nil_conv last_in_set)

lemma lex_last_solid:
  "lex s = Some ts \<Longrightarrow> s \<noteq> [] \<Longrightarrow> \<not> json_ws (last s) \<Longrightarrow> solid (last s)"
proof (induction s arbitrary: ts rule: lex.induct)
  case (1 s)
  have dn: "dropWhile json_ws s \<noteq> []"
    using "1.prems"(2,3) by (rule dropWhile_not_Nil)
  then obtain c cs where d: "dropWhile json_ws s = c # cs"
    by (cases "dropWhile json_ws s") auto
  have ls: "last s = last (c # cs)"
    using last_dropWhile [OF dn] d by simp
  from "1.prems"(1) d obtain t rest ts' where
    nt: "next_token (c # cs) = Some (t, rest)" and lr: "lex rest = Some ts'"
    by (subst (asm) lex.simps) (auto split: option.splits)
  obtain tok where tok: "c # cs = tok @ rest" "tok \<noteq> []" "solid (last tok)"
    using next_token_shape [OF nt] by (auto simp: token_of_def)
  show ?case
  proof (cases "rest = []")
    case True
    with tok ls show ?thesis by simp
  next
    case False
    then have lr2: "last s = last rest" using tok ls by simp
    have "solid (last rest)"
      using "1.IH" [OF d nt refl lr False] "1.prems"(3) lr2 by simp
    with lr2 show ?thesis by simp
  qed
qed

lemma json_strip_decomp:
  "\<exists>a b. s = a @ json_strip s @ b \<and> (\<forall>c\<in>set a. json_ws c) \<and> (\<forall>c\<in>set b. json_ws c)"
proof -
  let ?y = "dropWhile json_ws s"
  let ?a = "takeWhile json_ws s"
  let ?b = "rev (takeWhile json_ws (rev ?y))"
  have "json_strip s @ ?b = rev (takeWhile json_ws (rev ?y) @ dropWhile json_ws (rev ?y))"
    unfolding json_strip_def by (simp only: rev_append)
  also have "\<dots> = rev (rev ?y)"
    by (simp only: takeWhile_dropWhile_id)
  finally have y: "?y = json_strip s @ ?b"
    by simp
  have "s = ?a @ ?y" by simp
  with y have "s = ?a @ json_strip s @ ?b" by simp
  moreover have "\<forall>c\<in>set ?a. json_ws c" by (auto dest: set_takeWhileD)
  moreover have "\<forall>c\<in>set ?b. json_ws c" by (auto dest: set_takeWhileD)
  ultimately show ?thesis by blast
qed

lemma json_strip_ends:
  assumes "json_strip s \<noteq> []"
  shows "\<not> json_ws (hd (json_strip s)) \<and> \<not> json_ws (last (json_strip s))"
proof -
  let ?y = "dropWhile json_ws s"
  let ?z = "dropWhile json_ws (rev ?y)"
  have z: "?z \<noteq> []" using assms by (simp add: json_strip_def)
  have y: "?y \<noteq> []"
  proof
    assume "?y = []"
    then have "?z = []" by (simp only: rev.simps dropWhile.simps)
    with z show False by (simp only:)
  qed
  have "last (json_strip s) = hd ?z"
    using z by (simp add: json_strip_def last_rev)
  moreover have "\<not> json_ws (hd ?z)" using z by (rule hd_dropWhile)
  moreover have "hd (json_strip s) = last ?z"
    using z by (simp add: json_strip_def hd_rev)
  moreover have "last ?z = last (rev ?y)" using z by (rule last_dropWhile)
  moreover have "last (rev ?y) = hd ?y" using y by (simp add: last_rev)
  moreover have "\<not> json_ws (hd ?y)" using y by (rule hd_dropWhile)
  ultimately show ?thesis by simp
qed

lemma json_strip_fixed:
  assumes "x \<noteq> []" and "\<not> json_ws (hd x)" and "\<not> json_ws (last x)"
  shows "json_strip x = x"
proof -
  have 1: "dropWhile json_ws x = x"
    using assms(1,2) by (cases x) simp_all
  have "rev x \<noteq> []" and "\<not> json_ws (hd (rev x))"
    using assms(1,3) by (simp_all add: hd_rev)
  then have 2: "dropWhile json_ws (rev x) = rev x"
    by (cases "rev x") simp_all
  show ?thesis by (simp add: json_strip_def 1 2)
qed

lemma solid_not_json_ws: "solid c \<Longrightarrow> \<not> json_ws c"
  by (auto simp: solid_def json_ws_def code_def)

lemma lex_Nil: "lex [] = Some []"
  by (subst lex.simps) simp

lemma JSON_parse_shape:
  assumes "JSON_parse s = Some v"
  shows "\<exists>a b x. s = a @ x @ b \<and> (\<forall>c\<in>set a. json_ws c) \<and> (\<forall>c\<in>set b. json_ws c)
           \<and> x \<noteq> [] \<and> solid (hd x) \<and> solid (last x) \<and> JSON_parse x = Some v"
proof -
  let ?x = "json_strip s"
  obtain ts where lx: "lex ?x = Some ts" and pv: "parse_value ts = Some (v, [])"
    using assms
    by (auto simp: JSON_parse_def split: option.splits prod.splits list.splits)
  have ne: "?x \<noteq> []"
  proof
    assume "?x = []"
    with lx have "ts = []" by (simp add: lex_Nil)
    with pv show False by simp
  qed
  have ends: "\<not> json_ws (hd ?x)" "\<not> json_ws (last ?x)"
    using json_strip_ends [OF ne] by simp_all
  obtain c cs where x: "?x = c # cs" using ne by (cases ?x) auto
  have d: "dropWhile json_ws ?x = c # cs"
    using x ends(1) by simp
  obtain t rest where nt: "next_token (c # cs) = Some (t, rest)"
    using lx d by (subst (asm) lex.simps) (auto split: option.splits)
  obtain tok where "c # cs = tok @ rest" "tok \<noteq> []" "solid (hd tok)"
    using next_token_shape [OF nt] by (auto simp: token_of_def)
  then have "solid c" by (cases tok) auto
  then have h: "solid (hd ?x)" using x by simp
  have l: "solid (last ?x)"
    using lx ne ends(2) by (rule lex_last_solid)
  have fx: "json_strip ?x = ?x"
    using ne ends by (rule json_strip_fixed)
  have px: "JSON_parse ?x = Some v"
    using assms unfolding JSON_parse_def fx .
  obtain a b where "s = a @ ?x @ b" "\<forall>c\<in>set a. json_ws c" "\<forall>c\<in>set b. json_ws c"
    using json_strip_decomp [of s] by blast
  with ne h l px show ?thesis by blast
qed

lemma JSON_parse_clean_fenced:
  assumes "JSON_parse s = Some v" and "\<not> sublist ''```'' s"
  shows "JSON_parse (clean (fenced s)) = Some v"
proof -
  obtain a b x where s: "s = a @ x @ b"
    and a: "\<forall>c\<in>set a. json_ws c" and b: "\<forall>c\<in>set b. json_ws c"
    and x: "x \<noteq> []" "solid (hd x)" "solid (last x)" and px: "JSON_parse x = Some v"
    using JSON_parse_shape [OF assms(1)] by blast
  have "replace_fences (fenced s) = NL @ s @ NL"
    using replace_fences_fenced [of s] replace_fences_no_fence [OF assms(2)] by simp
  also have "\<dots> = (NL @ a) @ x @ (b @ NL)" using s by simp
  finally have "clean (fenced s) = trim ((NL @ a) @ x @ (b @ NL))"
    by (simp add: clean_def)
  also have "\<dots> = x"
    using a b x by (intro trim_shape) (auto simp: NL_def json_ws_def)
  finally show ?thesis using px by simp
qed

section \<open>Properties\<close>

text \<open>
  C1: when every transport attempt of a submission fails (the call is rejected or the status
  is not a success), the pipeline makes exactly 3 outbound calls, waits \<open>2^attempt * 1000\<close>
  after the first and the second failure (1000, then 2000), never before the first call nor
  after the last, and ends with an error message that names 3 attempts and the last error.
\<close>

theorem transport_failures_exhaust_retries:
  assumes "\<not> (textInput = [] \<and> (base64Image = None \<or> base64Image = Some []))"
    and "build_request rv st base64Image textInput = Inr (u, body)"
    and "\<forall>k<maxRetries. transport_fails (fetch_result P k)"
  shows "fetchGeminiAnalysis rv P st base64Image textInput =
       \<lparr>state = (begin_loading rv st)\<lparr>isLoading := False,
          error := ''Analysis failed after 3 attempts. Error: ''
                   @ message P (transport_error (fetch_result P 2))\<rparr>,
        trace =
          [Fetch u body,
           ConsoleError ''Attempt 1 failed:'' (transport_error (fetch_result P 0)),
           SetTimeout (2 ^ 0 * 1000),
           Fetch u body,
           ConsoleError ''Attempt 2 failed:'' (transport_error (fetch_result P 1)),
           SetTimeout (2 ^ 1 * 1000),
           Fetch u body,
           ConsoleError ''Attempt 3 failed:'' (transport_error (fetch_result P 2))],
        uncaught = None\<rparr>
     \<and> length (fetches (trace (fetchGeminiAnalysis rv P st base64Image textInput))) = 3
     \<and> delays (trace (fetchGeminiAnalysis rv P st base64Image textInput)) = [1000, 2000]"
proof -
  have f: "try_block (fetch_result P k) = Inl (transport_error (fetch_result P k))"
    if "k < 3" for k
    using assms(3) that by (simp add: maxRetries_def try_block_transport_fails)
  have eq: "fetchGeminiAnalysis rv P st base64Image textInput =
       \<lparr>state = (begin_loading rv st)\<lparr>isLoading := False,
          error := ''Analysis failed after 3 attempts. Error: ''
                   @ message P (transport_error (fetch_result P 2))\<rparr>,
        trace =
          [Fetch u body,
           ConsoleError ''Attempt 1 failed:'' (transport_error (fetch_result P 0)),
           SetTimeout (2 ^ 0 * 1000),
           Fetch u body,
           ConsoleError ''Attempt 2 failed:'' (transport_error (fetch_result P 1)),
           SetTimeout (2 ^ 1 * 1000),
           Fetch u body,
           ConsoleError ''Attempt 3 failed:'' (transport_error (fetch_result P 2))],
        uncaught = None\<rparr>"
    unfolding fetchGeminiAnalysis_submitted [OF assms(1,2)]
      attempts_all_fail [OF f [of 0] f [of 1] f [of 2], simplified]
    by simp
  show ?thesis
    unfolding eq by simp
qed

theorem transport_failures_exhaust_retries_witness:
  "transport_fails (fetch_result P_unavailable 0)
   \<and> transport_fails (fetch_result P_unavailable 1)
   \<and> transport_fails (fetch_result P_unavailable 2)
   \<and> length (fetches (trace (example_run P_unavailable))) = 3
   \<and> delays (trace (example_run P_unavailable)) = [1000, 2000]
   \<and> error (state (example_run P_unavailable))
       = ''Analysis failed after 3 attempts. Error: HTTP error! status: 503''"
proof -
  have fails: "\<forall>k<maxRetries. transport_fails (fetch_result P_unavailable k)"
    by (simp add: example_unavailable)
  have n: "number_to_string 503 = ''503''" by code_simp
  show ?thesis
    using transport_failures_exhaust_retries [OF _ example_request fails]
    by (simp add: example_run_def example_unavailable)
       (simp add: P_unavailable_def transport_error_def message_def n)
qed

text \<open>
  C4: with no text and no image the request is refused with the message asking for an
  input, and no outbound call is made; \<open>handleAnalyze\<close> refuses in the same way before
  it reaches \<open>fetchGeminiAnalysis\<close>.
\<close>

theorem no_input_no_call:
  assumes "base64Image = None \<or> base64Image = Some []"
  shows "fetchGeminiAnalysis rv P st base64Image [] =
       \<lparr>state = st\<lparr>error := ''Please provide text or an image to analyze.''\<rparr>,
        trace = [], uncaught = None\<rparr>
     \<and> fetches (trace (fetchGeminiAnalysis rv P st base64Image [])) = []
     \<and> (inputText st = [] \<and> imageFile st = None \<longrightarrow>
          handleAnalyze rv P st =
            \<lparr>state = st\<lparr>error := ''Please paste text or select an image.''\<rparr>,
             trace = [], uncaught = None\<rparr>)"
  using assms by (simp add: fetchGeminiAnalysis_no_input handleAnalyze_def)

theorem no_input_no_call_witness:
  "inputText initial_state = [] \<and> imageFile initial_state = None
   \<and> fetches (trace (fetchGeminiAnalysis App_jsx P_unavailable initial_state None [])) = []
   \<and> error (state (fetchGeminiAnalysis App_jsx P_unavailable initial_state None []))
       = ''Please provide text or an image to analyze.''
   \<and> trace (handleAnalyze App_jsx P_unavailable initial_state) = []
   \<and> error (state (handleAnalyze App_jsx P_unavailable initial_state))
       = ''Please paste text or select an image.''"
  using no_input_no_call [of None App_jsx P_unavailable initial_state]
  by (simp add: initial_state_def)

text \<open>
  C5: a response that completed transport but carries no text and no safety block makes the
  attempt fail with the "no JSON content" error; the failure is handled like any other: as
  long as an attempt remains, the loop waits \<open>2^attempt * 1000\<close> and calls again, and after
  the last attempt it reports the failure.
\<close>

theorem empty_response_is_retried:
  assumes "empty_response (fetch_result P k)" and "k < maxRetries"
  shows "try_block (fetch_result P k) = Inl (Error no_content_message)
     \<and> (k < maxRetries - 1 \<longrightarrow>
          (\<exists>rest. trace (attempts P u b k le st tr) =
             tr @ [Fetch u b,
                   ConsoleError (''Attempt '' @ number_to_string (k + 1) @ '' failed:'')
                     (Error no_content_message),
                   SetTimeout (2 ^ k * 1000),
                   Fetch u b] @ rest))
     \<and> (k = maxRetries - 1 \<longrightarrow>
          attempts P u b k le st tr =
            \<lparr>state = st\<lparr>isLoading := False,
               error := ''Analysis failed after 3 attempts. Error: '' @ no_content_message\<rparr>,
             trace = tr @ [Fetch u b,
                           ConsoleError ''Attempt 3 failed:'' (Error no_content_message)],
             uncaught = None\<rparr>)"
proof -
  have tb: "try_block (fetch_result P k) = Inl (Error no_content_message)"
    using assms(1) by (rule try_block_empty_response)
  show ?thesis
    using tb failed_attempt_continues [OF tb, of u b le st tr]
      last_attempt_fails [OF tb, of u b le st tr]
    by (simp add: message_def)
qed

theorem empty_response_is_retried_witness:
  "empty_response (fetch_result P_empty 0) \<and> empty_response (fetch_result P_empty 2)
   \<and> 0 < maxRetries - 1 \<and> 2 = maxRetries - 1
   \<and> try_block (fetch_result P_empty 0) = Inl (Error no_content_message)
   \<and> (\<exists>rest. trace (attempts P_empty API_URL_TEXT example_body 0 None initial_state []) =
          [Fetch API_URL_TEXT example_body,
           ConsoleError ''Attempt 1 failed:'' (Error no_content_message),
           SetTimeout 1000,
           Fetch API_URL_TEXT example_body] @ rest)
   \<and> trace (attempts P_empty API_URL_TEXT example_body 2 None initial_state []) =
          [Fetch API_URL_TEXT example_body,
           ConsoleError ''Attempt 3 failed:'' (Error no_content_message)]"
  using
    empty_response_is_retried [OF example_empty, of 0 API_URL_TEXT example_body None initial_state "[]"]
    empty_response_is_retried [OF example_empty, of 2 API_URL_TEXT example_body None initial_state "[]"]
    example_empty [of 0] example_empty [of 2]
  by (simp add: maxRetries_def number_to_string_small)

text \<open>
  C8: for a headline count \<open>N\<close> between 5 and 25, the instruction text of every payload
  handed to \<open>fetch\<close> contains the decimal numeral of \<open>N\<close>, in the sentence that asks for
  \<open>N\<close> sets of headlines.
\<close>

theorem instruction_contains_headline_count:
  assumes "5 \<le> numHeadlines st" and "numHeadlines st \<le> 25"
    and "(u, body) \<in> set (fetches (trace (fetchGeminiAnalysis rv P st base64Image textInput)))"
  shows "\<exists>t. instruction_text body = Some t
          \<and> sublist (number_to_string (numHeadlines st)) t
          \<and> sublist (''Provide '' @ number_to_string (numHeadlines st) @ '' sets of catchy'') t
          \<and> list_all is_digit (number_to_string (numHeadlines st))
          \<and> decimal (number_to_string (numHeadlines st)) = numHeadlines st"
proof -
  let ?n = "number_to_string (numHeadlines st)"
  let ?p = "prompt rv (numHeadlines st) textInput"
  have req: "build_request rv st base64Image textInput = Inr (u, body)"
    using assms(3) by (rule fetchGeminiAnalysis_requests)
  have s1: "sublist (''Provide '' @ ?n @ '' sets of catchy'') ?p"
    by (rule prompt_mentions_count)
  have s0: "sublist ?n (''Provide '' @ ?n @ '' sets of catchy'')"
    by (rule sublist_middle)
  from s0 s1 have s2: "sublist ?n ?p"
    by (rule sublist_order.order.trans)
  from build_request_instruction [OF req] s1 s2 show ?thesis
    by (auto simp: sublist_imagePrompt digits_number_to_string decimal_number_to_string)
qed

theorem instruction_contains_headline_count_witness:
  "5 \<le> numHeadlines initial_state \<and> numHeadlines initial_state \<le> 25
   \<and> (API_URL_TEXT, example_body) \<in> set (fetches (trace (example_run P_unavailable)))
   \<and> (\<exists>t. instruction_text example_body = Some t
          \<and> sublist ''10'' t \<and> sublist ''Provide 10 sets of catchy'' t)"
proof -
  have m: "(API_URL_TEXT, example_body)
      \<in> set (fetches (trace (fetchGeminiAnalysis App_jsx P_unavailable initial_state None
            ''The cow eat grass.'')))"
    unfolding example_run_def [symmetric]
      example_run_all_fail [OF try_block_transport_fails [OF example_unavailable]
        try_block_transport_fails [OF example_unavailable]
        try_block_transport_fails [OF example_unavailable]]
    by simp
  have b: "5 \<le> numHeadlines initial_state" "numHeadlines initial_state \<le> 25"
    by (simp_all add: initial_state_def)
  have n: "number_to_string 10 = ''10''" by code_simp
  have i: "numHeadlines initial_state = 10" by (simp add: initial_state_def)
  show ?thesis
    using instruction_contains_headline_count [OF b m] m b
    unfolding example_run_def i n by auto
qed

text \<open>
  C9: the headline-count selector offers exactly 5, 9, 13, 17 and 21 (\<open>5 + 4 * i\<close> for
  \<open>i\<close> from 0 to 4); 25 is not offered, and the initial count is 10, which is not one of
  the options either.
\<close>

theorem headline_options_values:
  "headline_options = [5, 9, 13, 17, 21] \<and> 25 \<notin> set headline_options
   \<and> numHeadlines initial_state = 10 \<and> numHeadlines initial_state \<notin> set headline_options"
  by (simp add: headline_options_def initial_state_def upt_rec)

text \<open>
  C2, as the code has it: a response that completed transport with finish reason
  \<open>SAFETY\<close> and no text makes the attempt fail with a message of its own, and the failure
  is handled like any other: while an attempt remains the loop waits \<open>2^attempt * 1000\<close>
  and calls again; after the last attempt the error names 3 attempts and ends with the
  safety message.
\<close>

theorem safety_block_is_retried:
  assumes "safety_blocked (fetch_result P k)" and "k < maxRetries"
  shows "try_block (fetch_result P k) = Inl (Error safety_message)
     \<and> (k < maxRetries - 1 \<longrightarrow>
          (\<exists>rest. trace (attempts P u b k le st tr) =
             tr @ [Fetch u b,
                   ConsoleError (''Attempt '' @ number_to_string (k + 1) @ '' failed:'')
                     (Error safety_message),
                   SetTimeout (2 ^ k * 1000),
                   Fetch u b] @ rest))
     \<and> (k = maxRetries - 1 \<longrightarrow>
          attempts P u b k le st tr =
            \<lparr>state = st\<lparr>isLoading := False,
               error := ''Analysis failed after 3 attempts. Error: '' @ safety_message\<rparr>,
             trace = tr @ [Fetch u b, ConsoleError ''Attempt 3 failed:'' (Error safety_message)],
             uncaught = None\<rparr>)"
proof -
  have tb: "try_block (fetch_result P k) = Inl (Error safety_message)"
    using assms(1) by (rule try_block_safety_blocked)
  show ?thesis
    using tb failed_attempt_continues [OF tb, of u b le st tr]
      last_attempt_fails [OF tb, of u b le st tr]
    by (simp add: message_def)
qed

theorem safety_block_is_retried_witness:
  "safety_blocked (fetch_result P_safety 0) \<and> safety_blocked (fetch_result P_safety 2)
   \<and> 0 < maxRetries - 1 \<and> 2 = maxRetries - 1
   \<and> try_block (fetch_result P_safety 0) = Inl (Error safety_message)
   \<and> (\<exists>rest. trace (attempts P_safety API_URL_TEXT example_body 0 None initial_state []) =
          [Fetch API_URL_TEXT example_body,
           ConsoleError ''Attempt 1 failed:'' (Error safety_message),
           SetTimeout 1000,
           Fetch API_URL_TEXT example_body] @ rest)
   \<and> error (state (attempts P_safety API_URL_TEXT example_body 2 None initial_state [])) =
          ''Analysis failed after 3 attempts. Error: '' @ safety_message"
  using
    safety_block_is_retried [OF example_safety, of 0 API_URL_TEXT example_body None initial_state "[]"]
    safety_block_is_retried [OF example_safety, of 2 API_URL_TEXT example_body None initial_state "[]"]
    example_safety [of 0] example_safety [of 2]
  by (simp add: maxRetries_def number_to_string_small)

text \<open>
  Against C2 as stated: for a service whose answers are all safety-blocked, the submission
  of the example makes three outbound calls and waits twice, not one call and no wait.
\<close>

theorem safety_block_counterexample:
  "safety_blocked (fetch_result P_safety 0)
   \<and> length (fetches (trace (example_run P_safety))) = 3
   \<and> length (fetches (trace (example_run P_safety))) \<noteq> 1
   \<and> delays (trace (example_run P_safety)) = [1000, 2000]"
  unfolding example_run_all_fail [OF try_block_safety_blocked [OF example_safety]
      try_block_safety_blocked [OF example_safety] try_block_safety_blocked [OF example_safety]]
  by (simp add: example_safety)

text \<open>
  C3, as the code has it: when transport succeeds and the cleaned text does not parse, the
  \<open>SyntaxError\<close> of \<open>JSON.parse\<close> is caught like every other error of the attempt: while an
  attempt remains the loop waits \<open>2^attempt * 1000\<close> and calls again; after the last
  attempt the error names 3 attempts and ends with the engine's message for that
  \<open>SyntaxError\<close>.
\<close>

theorem unparsable_text_is_retried:
  assumes "extracted_text (fetch_result P k) = Some t"
    and "JSON_parse (clean t) = None"
    and "k < maxRetries"
  shows "try_block (fetch_result P k) = Inl (JsonSyntaxError (clean t))
     \<and> (k < maxRetries - 1 \<longrightarrow>
          (\<exists>rest. trace (attempts P u b k le st tr) =
             tr @ [Fetch u b,
                   ConsoleError (''Attempt '' @ number_to_string (k + 1) @ '' failed:'')
                     (JsonSyntaxError (clean t)),
                   SetTimeout (2 ^ k * 1000),
                   Fetch u b] @ rest))
     \<and> (k = maxRetries - 1 \<longrightarrow>
          attempts P u b k le st tr =
            \<lparr>state = st\<lparr>isLoading := False,
               error := ''Analysis failed after 3 attempts. Error: ''
                        @ engine_message P (JsonSyntaxError (clean t))\<rparr>,
             trace = tr @ [Fetch u b,
                           ConsoleError ''Attempt 3 failed:'' (JsonSyntaxError (clean t))],
             uncaught = None\<rparr>)"
proof -
  have tb: "try_block (fetch_result P k) = Inl (JsonSyntaxError (clean t))"
    using try_block_extracted_text [OF assms(1)] assms(2) by simp
  show ?thesis
    using tb failed_attempt_continues [OF tb, of u b le st tr]
      last_attempt_fails [OF tb, of u b le st tr]
    by (simp add: message_def)
qed

theorem unparsable_text_is_retried_witness:
  "extracted_text (fetch_result P_prose 0) = Some ''Sorry, no.''
   \<and> extracted_text (fetch_result P_prose 2) = Some ''Sorry, no.''
   \<and> JSON_parse (clean ''Sorry, no.'') = None
   \<and> 0 < maxRetries - 1 \<and> 2 = maxRetries - 1
   \<and> (\<exists>rest. trace (attempts P_prose API_URL_TEXT example_body 0 None initial_state []) =
          [Fetch API_URL_TEXT example_body,
           ConsoleError ''Attempt 1 failed:'' (JsonSyntaxError (clean ''Sorry, no.'')),
           SetTimeout 1000,
           Fetch API_URL_TEXT example_body] @ rest)
   \<and> error (state (attempts P_prose API_URL_TEXT example_body 2 None initial_state [])) =
          ''Analysis failed after 3 attempts. Error: Unexpected token''"
  using
    unparsable_text_is_retried [OF example_prose example_prose_unparsable,
      of 0 API_URL_TEXT example_body None initial_state "[]"]
    unparsable_text_is_retried [OF example_prose example_prose_unparsable,
      of 2 API_URL_TEXT example_body None initial_state "[]"]
    example_prose [of 0] example_prose [of 2] example_prose_unparsable
  by (simp add: maxRetries_def number_to_string_small) (simp add: P_prose_def)

text \<open>
  Against C3 as stated: for a service whose answers carry a text that is not JSON, the
  submission of the example makes three outbound calls, two of them after the first parse
  failure.
\<close>

theorem unparsable_text_counterexample:
  "extracted_text (fetch_result P_prose 0) = Some ''Sorry, no.''
   \<and> JSON_parse (clean ''Sorry, no.'') = None
   \<and> length (fetches (trace (example_run P_prose))) = 3
   \<and> length (fetches (trace (example_run P_prose))) \<noteq> 1
   \<and> delays (trace (example_run P_prose)) = [1000, 2000]"
proof -
  have tb: "try_block (fetch_result P_prose k) = Inl (JsonSyntaxError (clean ''Sorry, no.''))"
    for k
    using try_block_extracted_text [OF example_prose [of k]] example_prose_unparsable by simp
  show ?thesis
    unfolding example_run_all_fail [OF tb tb tb]
    by (simp add: example_prose example_prose_unparsable)
qed

text \<open>
  C7, as the code has it: when a submission succeeds, the stored analysis is exactly the
  value that \<open>JSON.parse\<close> returned for the cleaned text of the successful response, with
  nothing added: a field that the parsed object does not have reads as \<open>undefined\<close> in the
  result.
\<close>

theorem successful_result_is_parsed_json:
  assumes "\<not> (textInput = [] \<and> (base64Image = None \<or> base64Image = Some []))"
    and "build_request rv st base64Image textInput = Inr (u, body)"
    and "k < maxRetries"
    and "\<forall>j<k. \<exists>e. try_block (fetch_result P j) = Inl e"
    and "try_block (fetch_result P k) = Inr v"
  shows "currentAnalysis (state (fetchGeminiAnalysis rv P st base64Image textInput)) = v
     \<and> uncaught (fetchGeminiAnalysis rv P st base64Image textInput) = None
     \<and> (\<exists>t. extracted_text (fetch_result P k) = Some t \<and> JSON_parse (clean t) = Some v)
     \<and> (\<forall>ms name. v = JObject ms \<and> name \<notin> fst ` set ms \<longrightarrow>
          get_named name
            (currentAnalysis (state (fetchGeminiAnalysis rv P st base64Image textInput)))
            = JUndefined)"
proof -
  have s: "state (fetchGeminiAnalysis rv P st base64Image textInput)
             = (begin_loading rv st)\<lparr>currentAnalysis := v, isLoading := False\<rparr>"
    and n: "uncaught (fetchGeminiAnalysis rv P st base64Image textInput) = None"
    unfolding fetchGeminiAnalysis_submitted [OF assms(1,2)]
    using attempts_succeeds_from [OF assms(3,4,5), of 0 u body None "begin_loading rv st" "[]"]
    by simp_all
  have c: "currentAnalysis (state (fetchGeminiAnalysis rv P st base64Image textInput)) = v"
    unfolding s by simp
  show ?thesis
    unfolding c using n try_block_Inr [OF assms(5)]
    by (auto simp: get_named_def own_property_absent)
qed

theorem successful_result_is_parsed_json_witness:
  "try_block (fetch_result P_bare 0) = Inr (JObject [])
   \<and> currentAnalysis (state (example_run P_bare)) = JObject []
   \<and> extracted_text (fetch_result P_bare 0) = Some ''{}''
   \<and> get_named ''headlinesAndSubheadlines'' (currentAnalysis (state (example_run P_bare)))
       = JUndefined"
  using successful_result_is_parsed_json [OF _ example_request _ _ example_bare [of 0]]
    example_bare [of 0] example_bare_text [of 0]
  by (simp add: example_run_def maxRetries_def get_named_def own_property_def)

text \<open>
  Against C7 as stated: the service answers with the text \<open>{}\<close>; the submission of the
  example succeeds, and both array fields of the stored analysis are \<open>undefined\<close>, not
  empty arrays.
\<close>

theorem absent_arrays_counterexample:
  "try_block (fetch_result P_bare 0) = Inr (JObject [])
   \<and> uncaught (example_run P_bare) = None
   \<and> error (state (example_run P_bare)) = []
   \<and> get_named ''suggestedCorrections'' (currentAnalysis (state (example_run P_bare)))
       = JUndefined
   \<and> get_named ''headlinesAndSubheadlines'' (currentAnalysis (state (example_run P_bare)))
       = JUndefined
   \<and> get_named ''suggestedCorrections'' (currentAnalysis (state (example_run P_bare)))
       \<noteq> JArray []"
  unfolding example_run_attempts
    attempts_success [of 0 P_bare "JObject []", OF _ example_bare, simplified]
  by (simp add: example_bare begin_loading_def get_named_def own_property_def)

text \<open>
  C10: selecting an image file overwrites the text input with the placeholder
  \<open>--- Image file selected: <name> --- (Content will be transcribed by AI ...)\<close>; in every
  state the interface can reach with an image file held, the text input is that placeholder,
  and it is what follows \<open>**Article Text**: \<close> at the end of the instruction text of every
  payload that \<open>handleAnalyze\<close> hands to \<open>fetch\<close>.
\<close>

theorem image_placeholder_is_article_text:
  assumes "imageFile (ui_run rv evs) = Some f"
    and "(u, body) \<in> set (fetches (trace (handleAnalyze rv P (ui_run rv evs))))"
  shows "handleFileChange rv (Some f) st0 =
           st0\<lparr>imageFile := Some f, inputText := placeholder rv (file_name f)\<rparr>
     \<and> prefix (''--- Image file selected: '' @ file_name f
                @ '' --- (Content will be transcribed by AI'') (placeholder rv (file_name f))
     \<and> placeholder rv (file_name f) \<noteq> []
     \<and> inputText (ui_run rv evs) = placeholder rv (file_name f)
     \<and> (\<exists>pre. instruction_text body =
            Some (pre @ ''**Article Text**: '' @ placeholder rv (file_name f)))"
proof -
  let ?st = "ui_run rv evs"
  have shown: "inputText ?st = placeholder rv (file_name f)"
    using ui_run_placeholder_shown [of rv evs] assms(1) by (simp add: placeholder_shown_def)
  obtain b where req: "build_request rv ?st b (inputText ?st) = Inr (u, body)"
    using handleAnalyze_requests [OF assms(2)] by blast
  have "\<exists>pre. instruction_text body = Some (pre @ ''**Article Text**: '' @ inputText ?st)"
    using build_request_instruction [OF req]
      prompt_article_text [of rv "numHeadlines ?st" "inputText ?st"]
      imagePrompt_article_text [of rv "numHeadlines ?st" "inputText ?st"]
    by auto
  then show ?thesis
    unfolding shown using placeholder_form [of "file_name f" rv]
    by (simp add: handleFileChange_def)
qed

theorem image_placeholder_is_article_text_witness:
  "imageFile (ui_run App_jsx [TextareaChange ''The cow eat grass.'', FileChange (Some example_photo)])
     = Some example_photo
   \<and> (API_URL_MULTIMODAL, example_photo_body)
       \<in> set (fetches (trace (handleAnalyze App_jsx P_unavailable
            (ui_run App_jsx [TextareaChange ''The cow eat grass.'', FileChange (Some example_photo)]))))
   \<and> inputText (ui_run App_jsx [TextareaChange ''The cow eat grass.'', FileChange (Some example_photo)])
       = ''--- Image file selected: page.png --- (Content will be transcribed by AI)''
   \<and> (\<exists>pre. instruction_text example_photo_body =
          Some (pre @ ''**Article Text**: ''
                @ ''--- Image file selected: page.png --- (Content will be transcribed by AI)''))"
proof -
  let ?evs = "[TextareaChange ''The cow eat grass.'', FileChange (Some example_photo)]"
  have st: "ui_run App_jsx ?evs =
      initial_state\<lparr>inputText := placeholder App_jsx ''page.png'', imageFile := Some example_photo\<rparr>"
    by (simp add: ui_run_def ui_step_def textarea_onChange_def handleFileChange_def
        example_photo_def initial_state_def)
  have img: "imageFile (ui_run App_jsx ?evs) = Some example_photo"
    unfolding st by simp
  have b64: "fileToBase64 example_photo = Some (Some ''iVBORw0KGgo='')"
    by (simp add: fileToBase64_def split_comma_1_def example_photo_def)
  have req: "build_request App_jsx (ui_run App_jsx ?evs) (Some ''iVBORw0KGgo='')
        (placeholder App_jsx ''page.png'') = Inr (API_URL_MULTIMODAL, example_photo_body)"
    unfolding st
    by (simp add: build_request_def Let_def initial_state_def example_photo_body_def
        example_photo_def)
  have pne: "placeholder App_jsx ''page.png'' \<noteq> []"
    using placeholder_form by blast
  have run: "handleAnalyze App_jsx P_unavailable (ui_run App_jsx ?evs) =
      attempts P_unavailable API_URL_MULTIMODAL example_photo_body 0 None
        (begin_loading App_jsx (ui_run App_jsx ?evs)) []"
  proof -
    have "handleAnalyze App_jsx P_unavailable (ui_run App_jsx ?evs) =
        fetchGeminiAnalysis App_jsx P_unavailable (ui_run App_jsx ?evs) (Some ''iVBORw0KGgo='')
          (inputText (ui_run App_jsx ?evs))"
      unfolding handleAnalyze_def img using b64 by simp
    also have "inputText (ui_run App_jsx ?evs) = placeholder App_jsx ''page.png''"
      unfolding st by simp
    finally show ?thesis
      using fetchGeminiAnalysis_submitted [OF _ req, of P_unavailable] pne by simp
  qed
  have m: "(API_URL_MULTIMODAL, example_photo_body)
      \<in> set (fetches (trace (handleAnalyze App_jsx P_unavailable (ui_run App_jsx ?evs))))"
    unfolding run
      attempts_all_fail [OF try_block_transport_fails [OF example_unavailable]
        try_block_transport_fails [OF example_unavailable]
        try_block_transport_fails [OF example_unavailable]]
    by simp
  have ph: "placeholder App_jsx ''page.png''
      = ''--- Image file selected: page.png --- (Content will be transcribed by AI)''"
    by (simp add: placeholder_def)
  have fn: "file_name example_photo = ''page.png''"
    by (simp add: example_photo_def)
  show ?thesis
    using image_placeholder_is_article_text [OF img m] img m
    unfolding fn ph by blast
qed

text \<open>
  Where the cleaning step keeps the answer: for a well-formed JSON text that nowhere
  contains three consecutive backticks, cleaning the text wrapped in a \<open>```json\<close> fence
  and parsing the result gives the value that parsing the text itself gives.
\<close>

lemma fenced_json_parses_alike:
  assumes "JSON_parse s = Some v" and "\<not> sublist ''```'' s"
  shows "JSON_parse (clean (fenced s)) = JSON_parse s
     \<and> JSON_parse (clean (fenced s)) = Some v
     \<and> replace_fences (fenced s) = NL @ s @ NL"
  using assms JSON_parse_clean_fenced [OF assms]
    replace_fences_fenced [of s] replace_fences_no_fence [OF assms(2)]
  by simp

lemma fenced_json_parses_alike_example:
  "JSON_parse example_analysis =
     Some (JObject [(''textWithErrorsHighlighted'', JString ''The cow eat grass.''),
                    (''headlinesAndSubheadlines'', JArray [])])
   \<and> \<not> sublist ''```'' example_analysis
   \<and> JSON_parse (clean (fenced example_analysis)) =
       Some (JObject [(''textWithErrorsHighlighted'', JString ''The cow eat grass.''),
                      (''headlinesAndSubheadlines'', JArray [])])"
proof -
  have p: "JSON_parse example_analysis =
     Some (JObject [(''textWithErrorsHighlighted'', JString ''The cow eat grass.''),
                    (''headlinesAndSubheadlines'', JArray [])])"
    by code_simp
  have n: "\<not> sublist ''```'' example_analysis"
    by code_simp
  show ?thesis
    using fenced_json_parses_alike [OF p n] p n by simp
qed

text \<open>
  C6 fails on the code where a JSON string holds three consecutive backticks. The
  replacement \<open>/```json|```/g\<close> removes every marker, also one inside a string: the
  well-formed text \<open>{"textWithErrorsHighlighted":"Run ```ls``` now"}\<close>, wrapped in a fence
  and cleaned, parses to a value whose string is \<open>Run ls now\<close>, not to the value of the
  text itself; the same happens to the text without any fence.
\<close>

theorem backticks_inside_json_are_removed:
  "JSON_parse example_backticks =
     Some (JObject [(''textWithErrorsHighlighted'', JString ''Run ```ls``` now'')])
   \<and> JSON_parse (clean (fenced example_backticks)) =
       Some (JObject [(''textWithErrorsHighlighted'', JString ''Run ls now'')])
   \<and> JSON_parse (clean (fenced example_backticks)) \<noteq> JSON_parse example_backticks
   \<and> JSON_parse (clean example_backticks) =
       Some (JObject [(''textWithErrorsHighlighted'', JString ''Run ls now'')])"
proof -
  have a: "JSON_parse example_backticks =
     Some (JObject [(''textWithErrorsHighlighted'', JString ''Run ```ls``` now'')])"
    by code_simp
  have b: "JSON_parse (clean (fenced example_backticks)) =
       Some (JObject [(''textWithErrorsHighlighted'', JString ''Run ls now'')])"
    by code_simp
  have c: "JSON_parse (clean example_backticks) =
       Some (JObject [(''textWithErrorsHighlighted'', JString ''Run ls now'')])"
    by code_simp
  show ?thesis
    unfolding a b c by simp
qed

end
